theory Spec2Isabelle
  imports Complex_Main "HOL-Library.Sublist" "HOL-Library.AList"
begin

chapter \<open>C-Wiper: safety validator, rule engines, state coordination and cleaning\<close>

text \<open>
  A shallow embedding of the core of C-Wiper (Python): \<^verbatim>\<open>src/controllers/state_manager.py\<close>,
  \<^verbatim>\<open>src/core/security.py\<close>, \<^verbatim>\<open>src/core/rule_engine.py\<close>,
  \<^verbatim>\<open>src/core/rule_engine_optimized.py\<close>, \<^verbatim>\<open>src/core/cleaner.py\<close>,
  \<^verbatim>\<open>src/controllers/clean_controller.py\<close> and \<^verbatim>\<open>src/models/scan_result.py\<close>.
  Objects are records, mutation is state passing, a raised exception is the \<open>Inl\<close> branch of a
  sum, and what the operating system decides (which paths exist, what a path resolves to, whether
  a move to the recycle bin succeeds) is a field of an explicit file-system record.
\<close>

section \<open>StateManager (\<^verbatim>\<open>state_manager.py\<close>)\<close>

datatype SystemState = IDLE | SCANNING | CLEANING | ANALYZING

text \<open>\<^verbatim>\<open>StateTransitionError(from_state, to_state)\<close>, the only exception the state manager raises.\<close>

datatype StateTransitionError = StateTransitionError (from_state: SystemState) (to_state: SystemState)

text \<open>The two fields of the singleton that the transitions read and write.\<close>

record StateManager =
  state :: SystemState
  cancel_flag :: bool

text \<open>The class attribute \<^verbatim>\<open>VALID_TRANSITIONS\<close>, a dictionary with one key per state.\<close>

fun VALID_TRANSITIONS :: "SystemState \<Rightarrow> SystemState list" where
  "VALID_TRANSITIONS IDLE = [SCANNING, ANALYZING, CLEANING]"
| "VALID_TRANSITIONS SCANNING = [IDLE, CLEANING]"
| "VALID_TRANSITIONS ANALYZING = [IDLE]"
| "VALID_TRANSITIONS CLEANING = [IDLE]"

text \<open>
  \<^verbatim>\<open>transition_to\<close>: the outcome (the raised error, or the returned \<^verbatim>\<open>True\<close>) and the manager
  afterwards. The raise happens before any assignment.
\<close>

definition transition_to :: "SystemState \<Rightarrow> StateManager \<Rightarrow> (StateTransitionError + bool) \<times> StateManager" where
  "transition_to new_state sm =
     (let valid_next_states = VALID_TRANSITIONS (state sm) in
      if new_state \<notin> set valid_next_states
      then (Inl (StateTransitionError (state sm) new_state), sm)
      else (Inr True, sm\<lparr>state := new_state, cancel_flag := False\<rparr>))"

definition request_cancel :: "StateManager \<Rightarrow> StateManager" where
  "request_cancel sm = sm\<lparr>cancel_flag := True\<rparr>"

definition reset_cancel_flag :: "StateManager \<Rightarrow> StateManager" where
  "reset_cancel_flag sm = sm\<lparr>cancel_flag := False\<rparr>"

definition is_cancel_requested :: "StateManager \<Rightarrow> bool" where
  "is_cancel_requested sm = cancel_flag sm"

definition is_idle :: "StateManager \<Rightarrow> bool" where
  "is_idle sm = (state sm = IDLE)"

definition is_cleaning :: "StateManager \<Rightarrow> bool" where
  "is_cleaning sm = (state sm = CLEANING)"

text \<open>The transition table as the specification words it, pair by pair.\<close>

definition spec_allowed :: "SystemState \<Rightarrow> SystemState \<Rightarrow> bool" where
  "spec_allowed s s' =
     ((s = IDLE \<and> (s' = SCANNING \<or> s' = ANALYZING \<or> s' = CLEANING)) \<or>
      (s = SCANNING \<and> (s' = IDLE \<or> s' = CLEANING)) \<or>
      (s = ANALYZING \<and> s' = IDLE) \<or>
      (s = CLEANING \<and> s' = IDLE))"

section \<open>Paths (\<^verbatim>\<open>pathlib\<close>) and the file system\<close>

text \<open>
  A \<^verbatim>\<open>pathlib\<close> path in the Windows flavour the program targets: the anchor (the drive
  and the root, either of which may be absent) and the components after it. Strings are byte
  strings; \<^verbatim>\<open>str.lower\<close> is modelled on the ASCII letters and leaves every other byte alone.
  UNC and device paths are outside the model.
\<close>

record PurePath =
  anchor :: string
  comps :: "string list"

abbreviation BS :: string where
  "BS \<equiv> [CHR 0x5C]"

definition is_sep :: "char \<Rightarrow> bool" where
  "is_sep c = (c = CHR 0x5C \<or> c = CHR ''/'')"

fun split_on :: "(char \<Rightarrow> bool) \<Rightarrow> string \<Rightarrow> string list" where
  "split_on P [] = [[]]"
| "split_on P (c # cs) =
     (if P c then [] # split_on P cs
      else (case split_on P cs of [] \<Rightarrow> [[c]] | w # ws \<Rightarrow> (c # w) # ws))"

text \<open>
  \<^verbatim>\<open>Path(s)\<close>: the drive is a character followed by a colon, the root is a leading separator
  of what follows the drive, and the rest is split at both separators, dropping empty and
  \<^verbatim>\<open>.\<close> components (so a trailing separator disappears).
\<close>

definition drive_of :: "string \<Rightarrow> string" where
  "drive_of s = (if 2 \<le> length s \<and> s ! 1 = CHR '':'' then take 2 s else [])"

definition root_of :: "string \<Rightarrow> string" where
  "root_of rest = (if rest \<noteq> [] \<and> is_sep (hd rest) then BS else [])"

definition components :: "string \<Rightarrow> string list" where
  "components rest = filter (\<lambda>x. x \<noteq> [] \<and> x \<noteq> ''.'') (split_on is_sep rest)"

definition Path :: "string \<Rightarrow> PurePath" where
  "Path s =
     (let drv = drive_of s;
          rest = drop (length drv) s
      in \<lparr>anchor = drv @ root_of rest, comps = components rest\<rparr>)"

definition parts :: "PurePath \<Rightarrow> string list" where
  "parts p = (if anchor p = [] then [] else [anchor p]) @ comps p"

text \<open>\<^verbatim>\<open>path.name\<close>: the last component, empty for a bare anchor.\<close>

definition name :: "PurePath \<Rightarrow> string" where
  "name p = (if comps p = [] then [] else last (comps p))"

fun rfind :: "char \<Rightarrow> string \<Rightarrow> nat option" where
  "rfind c [] = None"
| "rfind c (x # xs) =
     (case rfind c xs of Some i \<Rightarrow> Some (Suc i) | None \<Rightarrow> if x = c then Some 0 else None)"

text \<open>\<^verbatim>\<open>path.suffix\<close>: from the last dot of the name, unless that dot is first or last.\<close>

definition suffix_of :: "PurePath \<Rightarrow> string" where
  "suffix_of p =
     (let n = name p in
      case rfind (CHR ''.'') n of
        None \<Rightarrow> []
      | Some i \<Rightarrow> if 0 < i \<and> Suc i < length n then drop i n else [])"

fun join :: "string \<Rightarrow> string list \<Rightarrow> string" where
  "join sep [] = []"
| "join sep [x] = x"
| "join sep (x # y # ys) = x @ sep @ join sep (y # ys)"

text \<open>\<^verbatim>\<open>str(path)\<close>.\<close>

definition path_str :: "PurePath \<Rightarrow> string" where
  "path_str p = (if anchor p = [] \<and> comps p = [] then ''.'' else anchor p @ join BS (comps p))"

definition lower_char :: "char \<Rightarrow> char" where
  "lower_char c =
     (case map_of (zip ''ABCDEFGHIJKLMNOPQRSTUVWXYZ'' ''abcdefghijklmnopqrstuvwxyz'') c of
        None \<Rightarrow> c
      | Some d \<Rightarrow> d)"

definition lower :: "string \<Rightarrow> string" where
  "lower s = map lower_char s"

text \<open>
  What the operating system answers at one moment. \<open>fs_exists\<close> is \<^verbatim>\<open>Path.exists\<close>;
  \<open>fs_realpath\<close> is \<^verbatim>\<open>Path(os.path.realpath(p))\<close> and \<open>fs_resolve\<close> is \<^verbatim>\<open>Path.resolve\<close>, each
  \<open>Inl\<close> with the message when the call raises.
\<close>

record FileSystem =
  fs_exists :: "PurePath \<Rightarrow> bool"
  fs_realpath :: "PurePath \<Rightarrow> string + PurePath"
  fs_resolve :: "PurePath \<Rightarrow> string + PurePath"

section \<open>SecurityLayer (\<^verbatim>\<open>security.py\<close>)\<close>

text \<open>
  The class attribute \<^verbatim>\<open>HARDCODED_PROTECTED\<close> as the class body sets it. The attribute is a
  mutable list (\<^verbatim>\<open>add_protected_path\<close> appends to it), so the checks below take the current
  list as an argument.
\<close>

definition HARDCODED_PROTECTED :: "string list" where
  "HARDCODED_PROTECTED =
     [''C:'' @ BS @ ''Windows'',
      ''C:'' @ BS @ ''Program Files'',
      ''C:'' @ BS @ ''Program Files (x86)'',
      ''C:'' @ BS @ ''ProgramData'',
      ''C:'' @ BS @ ''System Volume Information'',
      ''C:'' @ BS @ ''Recovery'',
      ''C:'' @ BS @ ''Boot'',
      ''C:'' @ BS @ ''EFI'',
      ''C:$Recycle.Bin'']"

definition SYSTEM_FILES :: "string list" where
  "SYSTEM_FILES =
     [''pagefile.sys'', ''hiberfil.sys'', ''swapfile.sys'', ''ntldr'', ''ntdetect.com'',
      ''boot.ini'', ''bootsect.bak'']"

definition CRITICAL_EXTENSIONS :: "string list" where
  "CRITICAL_EXTENSIONS =
     [''.sys'', ''.dll'', ''.exe'', ''.com'', ''.bat'', ''.cmd'', ''.ps1'', ''.reg'', ''.inf'']"

definition add_protected_path :: "string \<Rightarrow> string list \<Rightarrow> string list" where
  "add_protected_path p protected = (if p \<notin> set protected then protected @ [p] else protected)"

text \<open>
  \<^verbatim>\<open>_is_path_under\<close>: both paths are resolved, and the parent's parts must equal the first parts
  of the path, string by string. Any exception gives \<^verbatim>\<open>False\<close>.
\<close>

definition is_path_under :: "FileSystem \<Rightarrow> PurePath \<Rightarrow> PurePath \<Rightarrow> bool" where
  "is_path_under fs path parent =
     (case fs_resolve fs path of
        Inl e \<Rightarrow> False
      | Inr path_resolved \<Rightarrow>
          (case fs_resolve fs parent of
             Inl e \<Rightarrow> False
           | Inr parent_resolved \<Rightarrow>
               (let path_parts = parts path_resolved;
                    parent_parts = parts parent_resolved
                in if length path_parts < length parent_parts then False
                   else take (length parent_parts) path_parts = parent_parts)))"

text \<open>Check 1 of \<^verbatim>\<open>is_safe_to_delete\<close>: the loop over the protected list, first hit wins.\<close>

fun check_protected :: "FileSystem \<Rightarrow> PurePath \<Rightarrow> string list \<Rightarrow> string option" where
  "check_protected fs real_path [] = None"
| "check_protected fs real_path (protected # rest) =
     (if is_path_under fs real_path (Path protected)
      then Some (''Protected path: '' @ protected)
      else check_protected fs real_path rest)"

text \<open>
  \<^verbatim>\<open>is_safe_to_delete(path, whitelist_extensions)\<close>. Check 0 is existence, then the real path
  is computed, check 1 runs on the real path, and checks 2 and 3 read \<^verbatim>\<open>path.name\<close> and
  \<^verbatim>\<open>path.suffix\<close> of the path as given. Check 4 only logs.
\<close>

definition is_safe_to_delete ::
    "FileSystem \<Rightarrow> string list \<Rightarrow> PurePath \<Rightarrow> string list \<Rightarrow> bool \<times> string" where
  "is_safe_to_delete fs protected path whitelist_extensions =
     (if \<not> fs_exists fs path then (False, ''File does not exist: '' @ path_str path)
      else
        (case fs_realpath fs path of
           Inl e \<Rightarrow> (False, ''Failed to resolve path: '' @ e)
         | Inr real_path \<Rightarrow>
             (case check_protected fs real_path protected of
                Some reason \<Rightarrow> (False, reason)
              | None \<Rightarrow>
                  (let filename = lower (name path) in
                   if filename \<in> set SYSTEM_FILES then (False, ''System file: '' @ filename)
                   else if lower (suffix_of path) \<in> set (map lower whitelist_extensions)
                   then (False, ''Whitelisted extension: '' @ suffix_of path)
                   else (True, ''OK'')))))"

text \<open>\<^verbatim>\<open>is_system_path\<close>: check 1 alone, \<^verbatim>\<open>False\<close> on any exception.\<close>

definition is_system_path :: "FileSystem \<Rightarrow> string list \<Rightarrow> PurePath \<Rightarrow> bool" where
  "is_system_path fs protected path =
     (case fs_realpath fs path of
        Inl e \<Rightarrow> False
      | Inr real_path \<Rightarrow> check_protected fs real_path protected \<noteq> None)"

subsection \<open>Spellings of a path\<close>

definition lower_path :: "PurePath \<Rightarrow> PurePath" where
  "lower_path p = \<lparr>anchor = lower (anchor p), comps = map lower (comps p)\<rparr>"

text \<open>Two spellings of a path that differ in letter case only.\<close>

definition ci_eq :: "PurePath \<Rightarrow> PurePath \<Rightarrow> bool" where
  "ci_eq a b = (lower_path a = lower_path b)"

text \<open>
  A file system that resolves without regard to letter case: every spelling of an existing path
  that differs in letter case only exists as well and has the same real path and the same
  resolved path. Check 1 has no case folding of its own; the comment above its loop says that
  \<^verbatim>\<open>resolve()\<close> is used to deal with letter case and separators.
\<close>

definition case_insensitive_fs :: "FileSystem \<Rightarrow> bool" where
  "case_insensitive_fs fs =
     (\<forall>a b. ci_eq a b \<and> fs_exists fs a \<longrightarrow>
        fs_exists fs b \<and> fs_realpath fs a = fs_realpath fs b \<and> fs_resolve fs a = fs_resolve fs b)"

text \<open>The verdict \<^verbatim>\<open>(False, "Protected path: <entry>")\<close> for an entry of the list.\<close>

definition rejected_as_protected :: "FileSystem \<Rightarrow> string list \<Rightarrow> PurePath \<Rightarrow> string list \<Rightarrow> bool" where
  "rejected_as_protected fs protected p wl =
     (\<exists>r0 \<in> set protected. is_safe_to_delete fs protected p wl = (False, ''Protected path: '' @ r0))"

subsection \<open>A small case-insensitive file system to evaluate on\<close>

text \<open>
  \<open>entries\<close> is the directory: it maps the case-folded spelling of each path on disk to the
  spelling stored; \<open>links\<close> are the symbolic links with their targets. A path exists when its
  case-folded spelling is in the directory; it resolves to the stored spelling, or to the target
  when the entry is a link; a path that does not exist resolves to itself.
\<close>

definition ntfs :: "(PurePath \<times> PurePath) list \<Rightarrow> (PurePath \<times> PurePath) list \<Rightarrow> FileSystem" where
  "ntfs entries links =
     (let look = (\<lambda>p. map_of entries (lower_path p));
          canon = (\<lambda>p. case look p of
                     None \<Rightarrow> Inr p
                   | Some q \<Rightarrow> (case map_of links q of None \<Rightarrow> Inr q | Some t \<Rightarrow> Inr t))
      in \<lparr>fs_exists = (\<lambda>p. look p \<noteq> None),
          fs_realpath = canon,
          fs_resolve = canon\<rparr>)"

definition demo_entries :: "(PurePath \<times> PurePath) list" where
  "demo_entries =
     [(Path ''c:/'', Path ''C:/''),
      (Path ''c:/windows'', Path ''C:/Windows''),
      (Path ''c:/windows/system32'', Path ''C:/Windows/System32''),
      (Path ''c:/windows/system32/kernel32.dll'', Path ''C:/Windows/System32/kernel32.dll''),
      (Path ''d:/'', Path ''D:/''),
      (Path ''d:/data'', Path ''D:/Data''),
      (Path ''d:/data/pagefile.sys'', Path ''D:/Data/pagefile.sys''),
      (Path ''d:/data/report.docx'', Path ''D:/Data/report.docx''),
      (Path ''d:/temp'', Path ''D:/Temp''),
      (Path ''d:/temp/link.tmp'', Path ''D:/Temp/link.tmp''),
      (Path ''d:/temp/alias.tmp'', Path ''D:/Temp/alias.tmp'')]"

definition demo_links :: "(PurePath \<times> PurePath) list" where
  "demo_links =
     [(Path ''D:/Temp/link.tmp'', Path ''D:/Data/pagefile.sys''),
      (Path ''D:/Temp/alias.tmp'', Path ''D:/Data/report.docx'')]"

definition demo_fs :: FileSystem where
  "demo_fs = ntfs demo_entries demo_links"

subsection \<open>The current directory\<close>

text \<open>
  How the operating system makes a path absolute before it looks it up. A path with a drive and
  a root is absolute. A path with a root and no drive is on the drive of the current directory.
  A path with neither, or with the drive of the current directory and no root (as
  \<^verbatim>\<open>C:name\<close>), is taken from the current directory; with another drive and no root it is taken
  from the root of that drive.
\<close>

definition absolute :: "PurePath \<Rightarrow> PurePath \<Rightarrow> PurePath" where
  "absolute cwd p =
     (if 2 < length (anchor p) then p
      else if anchor p = BS then \<lparr>anchor = take 2 (anchor cwd) @ BS, comps = comps p\<rparr>
      else if anchor p = [] \<or> lower (anchor p) = lower (take 2 (anchor cwd))
      then \<lparr>anchor = anchor cwd, comps = comps cwd @ comps p\<rparr>
      else \<lparr>anchor = anchor p @ BS, comps = comps p\<rparr>)"

text \<open>A file system as a process with the current directory \<open>cwd\<close> sees it.\<close>

definition at_cwd :: "PurePath \<Rightarrow> FileSystem \<Rightarrow> FileSystem" where
  "at_cwd cwd f =
     \<lparr>fs_exists = (\<lambda>p. fs_exists f (absolute cwd p)),
      fs_realpath = (\<lambda>p. fs_realpath f (absolute cwd p)),
      fs_resolve = (\<lambda>p. fs_resolve f (absolute cwd p))\<rparr>"

text \<open>
  A system volume with a file in the recycle bin store and a file in the recovery directory,
  seen from the current directory \<^verbatim>\<open>C:/Users/me\<close> and seen from the root of the drive.
\<close>

definition volume_entries :: "(PurePath \<times> PurePath) list" where
  "volume_entries =
     [(Path ''c:/'', Path ''C:/''),
      (Path ''c:/$recycle.bin'', Path ''C:/$Recycle.Bin''),
      (Path ''c:/$recycle.bin/s-1-5-18'', Path ''C:/$Recycle.Bin/S-1-5-18''),
      (Path ''c:/$recycle.bin/s-1-5-18/$r1.tmp'', Path ''C:/$Recycle.Bin/S-1-5-18/$R1.tmp''),
      (Path ''c:/recovery'', Path ''C:/Recovery''),
      (Path ''c:/recovery/winre.wim'', Path ''C:/Recovery/winre.wim''),
      (Path ''c:/users'', Path ''C:/Users''),
      (Path ''c:/users/me'', Path ''C:/Users/me'')]"

definition volume_fs :: FileSystem where
  "volume_fs = at_cwd (Path ''C:/Users/me'') (ntfs volume_entries [])"

definition volume_fs_at_root :: FileSystem where
  "volume_fs_at_root = at_cwd (Path ''C:/'') (ntfs volume_entries [])"

section \<open>FileInfo (\<^verbatim>\<open>scan_result.py\<close>)\<close>

text \<open>
  Python numbers are modelled as rationals: an \<^verbatim>\<open>int\<close> is itself, and the floats that occur
  (a size divided by \<^verbatim>\<open>1024.0\<close>) are dyadic fractions, which a double holds exactly for sizes
  below \<open>2 ^ 53\<close>. The field \<^verbatim>\<open>size\<close> is named \<open>size_bytes\<close>.
\<close>

record FileInfo =
  path :: PurePath
  size_bytes :: rat
  is_dir :: bool
  modified_time :: rat
  created_time :: "rat option"
  file_extension :: string
  is_hidden :: bool
  is_readonly :: bool

text \<open>
  The constructor with the defaults of the dataclass; \<^verbatim>\<open>__post_init__\<close> takes the extension
  from \<^verbatim>\<open>path.suffix\<close> when none is given. (It also reads the hidden and read-only attributes
  of an existing file from the operating system; no operation below reads them.)
\<close>

definition mk_FileInfo :: "PurePath \<Rightarrow> rat \<Rightarrow> bool \<Rightarrow> rat \<Rightarrow> FileInfo" where
  "mk_FileInfo p sz d mt =
     \<lparr>path = p, size_bytes = sz, is_dir = d, modified_time = mt, created_time = None,
      file_extension = suffix_of p, is_hidden = False, is_readonly = False\<rparr>"

section \<open>RuleEngine (\<^verbatim>\<open>rule_engine.py\<close>)\<close>

datatype RiskLevel = L1_SAFE | L2_REVIEW | L3_SYSTEM

datatype py_error = JSONDecodeError | RegexError | AttributeError

text \<open>
  The regular-expression library \<^verbatim>\<open>re\<close>, compiled with \<^verbatim>\<open>IGNORECASE\<close>: whether a pattern
  compiles, and what \<^verbatim>\<open>search\<close> and \<^verbatim>\<open>match\<close> of the compiled pattern answer on a text.
\<close>

record Regex =
  re_compiles :: "string \<Rightarrow> bool"
  re_search :: "string \<Rightarrow> string \<Rightarrow> bool"
  re_match :: "string \<Rightarrow> string \<Rightarrow> bool"

record RuleConditions =
  path_pattern :: "string option"
  file_extensions :: "string list"
  min_size :: "rat option"
  max_size :: "rat option"
  name_pattern :: "string option"

text \<open>Python truthiness of an optional string: present and not empty.\<close>

fun truthy :: "string option \<Rightarrow> bool" where
  "truthy None = False"
| "truthy (Some s) = (s \<noteq> [])"

fun str_of :: "string option \<Rightarrow> string" where
  "str_of None = []"
| "str_of (Some s) = s"

definition replace_char :: "char \<Rightarrow> string \<Rightarrow> string \<Rightarrow> string" where
  "replace_char c rep s = concat (map (\<lambda>x. if x = c then rep else [x]) s)"

text \<open>The three \<^verbatim>\<open>str.replace\<close> calls that turn a wildcard pattern into a regular expression.\<close>

definition wildcard_regex :: "string \<Rightarrow> string" where
  "wildcard_regex pat =
     (let regex_pattern = replace_char (CHR ''.'') (BS @ ''.'') pat;
          regex_pattern = replace_char (CHR ''*'') ''.*'' regex_pattern;
          regex_pattern = replace_char (CHR ''?'') ''.'' regex_pattern
      in ''^'' @ regex_pattern @ ''$'')"

text \<open>\<^verbatim>\<open>RuleConditions._match_path_pattern\<close>: a pattern that does not compile matches nothing.\<close>

definition match_path_pattern :: "Regex \<Rightarrow> RuleConditions \<Rightarrow> PurePath \<Rightarrow> bool" where
  "match_path_pattern re c p =
     (if \<not> truthy (path_pattern c) then True
      else (let regex_pattern = wildcard_regex (str_of (path_pattern c)) in
            if re_compiles re regex_pattern then re_match re regex_pattern (path_str p)
            else False))"

text \<open>\<^verbatim>\<open>RuleConditions.matches\<close>: every component that is present must hold.\<close>

definition conditions_matches :: "Regex \<Rightarrow> RuleConditions \<Rightarrow> FileInfo \<Rightarrow> bool" where
  "conditions_matches re c f =
     (if truthy (path_pattern c) \<and> \<not> match_path_pattern re c (path f) then False
      else if file_extensions c \<noteq> [] \<and>
              lower (file_extension f) \<notin> set (map lower (file_extensions c)) then False
      else if (case min_size c of None \<Rightarrow> False | Some m \<Rightarrow> size_bytes f < m) then False
      else if (case max_size c of None \<Rightarrow> False | Some m \<Rightarrow> size_bytes f > m) then False
      else if truthy (name_pattern c) \<and>
              \<not> re_search re (str_of (name_pattern c)) (name (path f)) then False
      else True)"

text \<open>The fields \<^verbatim>\<open>id\<close> and \<^verbatim>\<open>name\<close> of a rule are named \<open>rule_id\<close> and \<open>rule_name\<close>.\<close>

record Rule =
  rule_id :: string
  rule_name :: string
  conditions :: RuleConditions
  risk_level :: RiskLevel
  enabled :: bool
  description :: "string option"
  category :: "string option"

definition rule_matches :: "Regex \<Rightarrow> Rule \<Rightarrow> FileInfo \<Rightarrow> bool" where
  "rule_matches re r f = (if \<not> enabled r then False else conditions_matches re (conditions r) f)"

record RuleMatch =
  rule :: "Rule option"
  file_info :: FileInfo
  matched :: bool
  reason :: string

text \<open>
  \<^verbatim>\<open>RuleIndex\<close>: the rules by category (a dictionary in insertion order), by risk level, and
  the enabled rules in the order of the rule list.
\<close>

record RuleIndex =
  rules_by_category :: "(string \<times> Rule list) list"
  rules_by_risk :: "RiskLevel \<Rightarrow> Rule list"
  enabled_rules :: "Rule list"

definition dict_append :: "'k \<Rightarrow> 'v \<Rightarrow> ('k \<times> 'v list) list \<Rightarrow> ('k \<times> 'v list) list" where
  "dict_append k v d =
     (case map_of d k of
        None \<Rightarrow> d @ [(k, [v])]
      | Some vs \<Rightarrow> AList.update k (vs @ [v]) d)"

definition index_rule :: "Rule \<Rightarrow> RuleIndex \<Rightarrow> RuleIndex" where
  "index_rule r idx =
     (let cat = (if truthy (category r) then str_of (category r) else ''uncategorized'') in
      \<lparr>rules_by_category = dict_append cat r (rules_by_category idx),
       rules_by_risk = (rules_by_risk idx)(risk_level r := rules_by_risk idx (risk_level r) @ [r]),
       enabled_rules = (if enabled r then enabled_rules idx @ [r] else enabled_rules idx)\<rparr>)"

definition mk_RuleIndex :: "Rule list \<Rightarrow> RuleIndex" where
  "mk_RuleIndex rs =
     fold index_rule rs
       \<lparr>rules_by_category = [], rules_by_risk = (\<lambda>l. []), enabled_rules = []\<rparr>"

text \<open>
  \<^verbatim>\<open>ExtensionIndex\<close> and \<^verbatim>\<open>OptimizedRuleIndex\<close> of \<^verbatim>\<open>rule_engine_optimized.py\<close>. The
  dictionary \<^verbatim>\<open>rules_by_extension\<close> is read with \<^verbatim>\<open>get(ext, [])\<close> only.
\<close>

record ExtensionIndex =
  rules_by_extension :: "string \<rightharpoonup> Rule list"
  rules_without_extension :: "Rule list"

definition ext_add :: "Rule \<Rightarrow> string \<Rightarrow> (string \<rightharpoonup> Rule list) \<Rightarrow> (string \<rightharpoonup> Rule list)" where
  "ext_add r ext m =
     (let ext_lower = lower ext in
      m(ext_lower \<mapsto> (case m ext_lower of None \<Rightarrow> [] | Some rs \<Rightarrow> rs) @ [r]))"

definition add_rule :: "Rule \<Rightarrow> ExtensionIndex \<Rightarrow> ExtensionIndex" where
  "add_rule r ix =
     (if file_extensions (conditions r) \<noteq> []
      then ix\<lparr>rules_by_extension := fold (ext_add r) (file_extensions (conditions r)) (rules_by_extension ix)\<rparr>
      else ix\<lparr>rules_without_extension := rules_without_extension ix @ [r]\<rparr>)"

definition get_rules :: "ExtensionIndex \<Rightarrow> string \<Rightarrow> Rule list" where
  "get_rules ix ext =
     (let ext_lower = lower ext in
      case rules_by_extension ix ext_lower of None \<Rightarrow> [] | Some rs \<Rightarrow> rs)"

record OptimizedRuleIndex =
  oi_rules :: "Rule list"
  oi_enabled_rules :: "Rule list"
  extension_index :: ExtensionIndex
  oi_rules_by_risk :: "RiskLevel \<Rightarrow> Rule list"

definition oi_index_rule :: "Rule \<Rightarrow> OptimizedRuleIndex \<Rightarrow> OptimizedRuleIndex" where
  "oi_index_rule r idx =
     idx\<lparr>extension_index := add_rule r (extension_index idx),
         oi_rules_by_risk := (oi_rules_by_risk idx)(risk_level r := oi_rules_by_risk idx (risk_level r) @ [r]),
         oi_enabled_rules := (if enabled r then oi_enabled_rules idx @ [r] else oi_enabled_rules idx)\<rparr>"

definition mk_OptimizedRuleIndex :: "Rule list \<Rightarrow> OptimizedRuleIndex" where
  "mk_OptimizedRuleIndex rs =
     fold oi_index_rule rs
       \<lparr>oi_rules = rs, oi_enabled_rules = [],
        extension_index = \<lparr>rules_by_extension = Map.empty, rules_without_extension = []\<rparr>,
        oi_rules_by_risk = (\<lambda>l. [])\<rparr>"

text \<open>
  The attribute \<^verbatim>\<open>rule_index\<close> holds either kind of index: the base class stores a
  \<^verbatim>\<open>RuleIndex\<close>, the optimized \<^verbatim>\<open>load_rules\<close> replaces it by an \<^verbatim>\<open>OptimizedRuleIndex\<close>.
\<close>

datatype AnyIndex = PlainIndex RuleIndex | OptIndex OptimizedRuleIndex

fun index_enabled_rules :: "AnyIndex \<Rightarrow> Rule list" where
  "index_enabled_rules (PlainIndex i) = enabled_rules i"
| "index_enabled_rules (OptIndex i) = oi_enabled_rules i"

text \<open>\<^verbatim>\<open>rule_index.get_rules_by_extension\<close>: a plain \<^verbatim>\<open>RuleIndex\<close> has no such method.\<close>

fun get_rules_by_extension :: "AnyIndex \<Rightarrow> string \<Rightarrow> py_error + Rule list" where
  "get_rules_by_extension (PlainIndex i) ext = Inl AttributeError"
| "get_rules_by_extension (OptIndex i) ext = Inr (get_rules (extension_index i) ext)"

record RuleEngine =
  rules :: "Rule list"
  rule_index :: "AnyIndex option"

text \<open>
  The rule configuration file as \<^verbatim>\<open>load_rules\<close> meets it: absent, not valid JSON, or a list of
  rule records. A record whose name pattern does not compile makes \<^verbatim>\<open>Rule.from_dict\<close> raise
  and is skipped.
\<close>

datatype Config = NoConfigFile | InvalidJSON | ConfigRules "Rule list"

definition default_rules :: "Rule list" where
  "default_rules =
     [\<lparr>rule_id = ''temp_files'', rule_name = ''temp files'',
       conditions = \<lparr>path_pattern = None, file_extensions = [''.tmp'', ''.temp''],
                     min_size = None, max_size = None, name_pattern = None\<rparr>,
       risk_level = L1_SAFE, enabled = True,
       description = Some ''Windows temp files'', category = Some ''temp''\<rparr>,
      \<lparr>rule_id = ''log_files'', rule_name = ''log files'',
       conditions = \<lparr>path_pattern = None, file_extensions = [''.log'', ''.log1'', ''.log2''],
                     min_size = None, max_size = None, name_pattern = None\<rparr>,
       risk_level = L2_REVIEW, enabled = True,
       description = Some ''application log files'', category = Some ''logs''\<rparr>,
      \<lparr>rule_id = ''cache_files'', rule_name = ''cache files'',
       conditions = \<lparr>path_pattern = None, file_extensions = [''.cache'', ''.cache2''],
                     min_size = None, max_size = None, name_pattern = None\<rparr>,
       risk_level = L1_SAFE, enabled = True,
       description = Some ''browser and application caches'', category = Some ''cache''\<rparr>]"

definition name_pattern_ok :: "Regex \<Rightarrow> Rule \<Rightarrow> bool" where
  "name_pattern_ok re r =
     (if truthy (name_pattern (conditions r)) then re_compiles re (str_of (name_pattern (conditions r)))
      else True)"

text \<open>\<^verbatim>\<open>RuleEngine.load_rules\<close> (with \<^verbatim>\<open>_create_default_rules\<close> for a missing file).\<close>

definition load_rules :: "Regex \<Rightarrow> Config \<Rightarrow> 'a RuleEngine_scheme \<Rightarrow> py_error + 'a RuleEngine_scheme" where
  "load_rules re cfg eng =
     (case cfg of
        NoConfigFile \<Rightarrow>
          Inr (eng\<lparr>rules := default_rules, rule_index := Some (PlainIndex (mk_RuleIndex default_rules))\<rparr>)
      | InvalidJSON \<Rightarrow> Inl JSONDecodeError
      | ConfigRules rs \<Rightarrow>
          (let loaded = filter (name_pattern_ok re) rs in
           Inr (eng\<lparr>rules := loaded, rule_index := Some (PlainIndex (mk_RuleIndex loaded))\<rparr>)))"

text \<open>The loop of \<^verbatim>\<open>RuleEngine.match_file\<close>: the first rule of the list that matches.\<close>

fun first_match :: "Regex \<Rightarrow> Rule list \<Rightarrow> FileInfo \<Rightarrow> Rule option" where
  "first_match re [] f = None"
| "first_match re (r # rs) f = (if rule_matches re r f then Some r else first_match re rs f)"

definition match_result :: "Rule option \<Rightarrow> FileInfo \<Rightarrow> RuleMatch" where
  "match_result ro f =
     (case ro of
        Some r \<Rightarrow> \<lparr>rule = Some r, file_info = f, matched = True,
                   reason = ''Matched rule: '' @ rule_name r\<rparr>
      | None \<Rightarrow> \<lparr>rule = None, file_info = f, matched = False,
                 reason = ''No matching rule found''\<rparr>)"

text \<open>
  \<^verbatim>\<open>RuleEngine.match_file\<close>: loads the rules when there is no index yet (an exception of the
  load propagates), then walks the enabled rules of the index in order.
\<close>

definition match_file :: "Regex \<Rightarrow> Config \<Rightarrow> RuleEngine \<Rightarrow> FileInfo \<Rightarrow> (py_error + RuleMatch) \<times> RuleEngine" where
  "match_file re cfg eng f =
     (case (if rule_index eng = None then load_rules re cfg eng else Inr eng) of
        Inl e \<Rightarrow> (Inl e, eng)
      | Inr eng' \<Rightarrow>
          (case rule_index eng' of
             None \<Rightarrow> (Inl AttributeError, eng')
           | Some idx \<Rightarrow> (Inr (match_result (first_match re (index_enabled_rules idx) f) f), eng')))"

section \<open>OptimizedRuleEngine (\<^verbatim>\<open>rule_engine_optimized.py\<close>)\<close>

text \<open>
  \<^verbatim>\<open>OptimizedRuleConditions.matches\<close>: the same components, the extension first, with the path
  pattern compiled when the rules were loaded. (The pattern cache shares compiled patterns; it
  does not change what a compiled pattern answers, and its hit counters are left out.)
\<close>

definition opt_conditions_matches :: "Regex \<Rightarrow> RuleConditions \<Rightarrow> FileInfo \<Rightarrow> bool" where
  "opt_conditions_matches re c f =
     (if file_extensions c \<noteq> [] \<and>
         lower (file_extension f) \<notin> set (map lower (file_extensions c)) then False
      else if truthy (path_pattern c) \<and>
              \<not> re_match re (wildcard_regex (str_of (path_pattern c))) (path_str (path f)) then False
      else if (case min_size c of None \<Rightarrow> False | Some m \<Rightarrow> size_bytes f < m) then False
      else if (case max_size c of None \<Rightarrow> False | Some m \<Rightarrow> size_bytes f > m) then False
      else if truthy (name_pattern c) \<and>
              \<not> re_search re (str_of (name_pattern c)) (name (path f)) then False
      else True)"

definition opt_rule_matches :: "Regex \<Rightarrow> Rule \<Rightarrow> FileInfo \<Rightarrow> bool" where
  "opt_rule_matches re r f = (if \<not> enabled r then False else opt_conditions_matches re (conditions r) f)"

record OptimizedRuleEngine = RuleEngine +
  match_cache :: "(string \<times> RuleMatch) list"
  cache_size_limit :: nat

definition path_pattern_ok :: "Regex \<Rightarrow> Rule \<Rightarrow> bool" where
  "path_pattern_ok re r =
     (if truthy (path_pattern (conditions r))
      then re_compiles re (wildcard_regex (str_of (path_pattern (conditions r))))
      else True)"

text \<open>
  \<^verbatim>\<open>OptimizedRuleEngine.load_rules\<close>: the base load, then, only when the rule list is not
  empty, every rule's conditions are rebuilt (compiling its path pattern, which raises when the
  pattern does not compile) and the index is replaced by an optimized one. With an empty rule
  list, or after the exception, the plain index of the base load stays.
\<close>

definition opt_load_rules :: "Regex \<Rightarrow> Config \<Rightarrow> OptimizedRuleEngine \<Rightarrow> (py_error + unit) \<times> OptimizedRuleEngine" where
  "opt_load_rules re cfg eng =
     (case load_rules re cfg eng of
        Inl e \<Rightarrow> (Inl e, eng)
      | Inr eng1 \<Rightarrow>
          if rules eng1 = [] then (Inr (), eng1)
          else if \<not> list_all (path_pattern_ok re) (rules eng1) then (Inl RegexError, eng1)
          else (Inr (), eng1\<lparr>rule_index := Some (OptIndex (mk_OptimizedRuleIndex (rules eng1)))\<rparr>))"

text \<open>The loop over the candidate rules: disabled rules are skipped, the first match wins.\<close>

fun opt_first_match :: "Regex \<Rightarrow> Rule list \<Rightarrow> FileInfo \<Rightarrow> Rule option" where
  "opt_first_match re [] f = None"
| "opt_first_match re (r # rs) f =
     (if \<not> enabled r then opt_first_match re rs f
      else if opt_rule_matches re r f then Some r
      else opt_first_match re rs f)"

text \<open>\<^verbatim>\<open>_cache_match\<close>: at the limit the oldest entry is dropped, then the result is stored.\<close>

definition cache_match :: "string \<Rightarrow> RuleMatch \<Rightarrow> OptimizedRuleEngine \<Rightarrow> OptimizedRuleEngine" where
  "cache_match k m eng =
     (let c = (if length (match_cache eng) \<ge> cache_size_limit eng then tl (match_cache eng)
               else match_cache eng)
      in eng\<lparr>match_cache := AList.update k m c\<rparr>)"

text \<open>\<^verbatim>\<open>OptimizedRuleEngine.match_file\<close>.\<close>

definition opt_match_file ::
    "Regex \<Rightarrow> Config \<Rightarrow> OptimizedRuleEngine \<Rightarrow> FileInfo \<Rightarrow> (py_error + RuleMatch) \<times> OptimizedRuleEngine" where
  "opt_match_file re cfg eng f =
     (case (if rule_index eng = None then opt_load_rules re cfg eng else (Inr (), eng)) of
        (Inl e, eng') \<Rightarrow> (Inl e, eng')
      | (Inr u, eng') \<Rightarrow>
          (case rule_index eng' of
             None \<Rightarrow> (Inl AttributeError, eng')
           | Some idx \<Rightarrow>
               (let cache_key = path_str (path f) in
                case map_of (match_cache eng') cache_key of
                  Some m \<Rightarrow> (Inr m, eng')
                | None \<Rightarrow>
                    (case get_rules_by_extension idx (file_extension f) of
                       Inl e \<Rightarrow> (Inl e, eng')
                     | Inr by_ext \<Rightarrow>
                         (let candidate_rules = (if by_ext = [] then index_enabled_rules idx else by_ext);
                              m = match_result (opt_first_match re candidate_rules f) f
                          in (Inr m, cache_match cache_key m eng'))))))"

text \<open>A freshly constructed engine of either class: no rules, no index, an empty cache.\<close>

definition new_RuleEngine :: RuleEngine where
  "new_RuleEngine = \<lparr>rules = [], rule_index = None\<rparr>"

definition new_OptimizedRuleEngine :: OptimizedRuleEngine where
  "new_OptimizedRuleEngine = \<lparr>rules = [], rule_index = None, match_cache = [], cache_size_limit = 10000\<rparr>"

subsection \<open>Rules and files to evaluate on\<close>

text \<open>A regular-expression library in which every pattern compiles and none matches.\<close>

definition demo_re :: Regex where
  "demo_re = \<lparr>re_compiles = (\<lambda>p. True), re_search = (\<lambda>p t. False), re_match = (\<lambda>p t. False)\<rparr>"

text \<open>A rule without extensions (any file of at least 0 bytes) and two rules for \<^verbatim>\<open>.tmp\<close>.\<close>

definition rule_all :: Rule where
  "rule_all =
     \<lparr>rule_id = ''any_file'', rule_name = ''any file'',
      conditions = \<lparr>path_pattern = None, file_extensions = [],
                    min_size = Some 0, max_size = None, name_pattern = None\<rparr>,
      risk_level = L2_REVIEW, enabled = True, description = None, category = None\<rparr>"

definition rule_tmp :: Rule where
  "rule_tmp =
     \<lparr>rule_id = ''tmp'', rule_name = ''temp files'',
      conditions = \<lparr>path_pattern = None, file_extensions = [''.tmp''],
                    min_size = None, max_size = None, name_pattern = None\<rparr>,
      risk_level = L1_SAFE, enabled = True, description = None, category = None\<rparr>"

definition rule_big_tmp :: Rule where
  "rule_big_tmp =
     \<lparr>rule_id = ''big_tmp'', rule_name = ''large temp files'',
      conditions = \<lparr>path_pattern = None, file_extensions = [''.tmp''],
                    min_size = Some 1000, max_size = None, name_pattern = None\<rparr>,
      risk_level = L1_SAFE, enabled = True, description = None, category = None\<rparr>"

definition a_tmp :: FileInfo where
  "a_tmp = mk_FileInfo (Path ''D:/Temp/a.tmp'') 10 False 0"

definition c_txt :: FileInfo where
  "c_txt = mk_FileInfo (Path ''D:/Temp/c.txt'') 5 False 0"

section \<open>Size formatting (\<^verbatim>\<open>cleaner.py\<close>, \<^verbatim>\<open>scan_result.py\<close>, \<^verbatim>\<open>clean_controller.py\<close>)\<close>

definition digit_char :: "nat \<Rightarrow> char" where
  "digit_char d = ''0123456789'' ! (d mod 10)"

function digits :: "nat \<Rightarrow> string" where
  "digits n = (if n < 10 then [digit_char n] else digits (n div 10) @ [digit_char (n mod 10)])"
  by pat_completeness auto
termination
  by (relation "measure id") auto

definition round_half_even :: "rat \<Rightarrow> int" where
  "round_half_even q =
     (let f = \<lfloor>q\<rfloor>; d = q - of_int f in
      if d < 1 / 2 then f else if d > 1 / 2 then f + 1 else if even f then f else f + 1)"

text \<open>
  The format \<^verbatim>\<open>{x:.2f}\<close>: the value rounded to two decimals (ties to even, on the exact
  value), with a sign for a negative value.
\<close>

definition fmt2 :: "rat \<Rightarrow> string" where
  "fmt2 x =
     (let n = nat (round_half_even (\<bar>x\<bar> * 100)) in
      (if x < 0 then ''-'' else []) @ digits (n div 100) @ ''.'' @
      [digit_char (n mod 100 div 10), digit_char (n mod 10)])"

definition UNITS :: "string list" where
  "UNITS = [''B'', ''KB'', ''MB'', ''GB'', ''TB'']"

text \<open>
  The loop shared by the four formatting methods: the returned string, and the value the loop
  variable holds when the method returns.
\<close>

fun format_loop :: "string list \<Rightarrow> rat \<Rightarrow> string \<times> rat" where
  "format_loop [] v = (fmt2 v @ '' PB'', v)"
| "format_loop (unit # units) v =
     (if v < 1024 then (fmt2 v @ '' '' @ unit, v) else format_loop units (v / 1024))"

text \<open>
  \<^verbatim>\<open>CleanerExecutor._format_size\<close> and \<^verbatim>\<open>CleanController._format_size\<close> divide their
  argument, a local variable.
\<close>

definition format_size_static :: "rat \<Rightarrow> string" where
  "format_size_static size_b = fst (format_loop UNITS size_b)"

text \<open>\<^verbatim>\<open>FileInfo.format_size\<close> divides the field \<^verbatim>\<open>self.size\<close>.\<close>

definition format_size :: "FileInfo \<Rightarrow> string \<times> FileInfo" where
  "format_size f =
     (case format_loop UNITS (size_bytes f) of (s, v) \<Rightarrow> (s, f\<lparr>size_bytes := v\<rparr>))"

section \<open>CleanerExecutor (\<^verbatim>\<open>cleaner.py\<close>)\<close>

record CleanResult =
  success :: bool
  files_deleted :: nat
  total_size :: rat
  errors :: "string list"
  duration :: rat
  skipped :: nat

definition new_CleanResult :: CleanResult where
  "new_CleanResult =
     \<lparr>success = True, files_deleted = 0, total_size = 0, errors = [], duration = 0, skipped = 0\<rparr>"

text \<open>The property \<^verbatim>\<open>CleanResult.formatted_size\<close> divides the field \<^verbatim>\<open>self.total_size\<close>.\<close>

definition formatted_size :: "CleanResult \<Rightarrow> string \<times> CleanResult" where
  "formatted_size r =
     (case format_loop UNITS (total_size r) of (s, v) \<Rightarrow> (s, r\<lparr>total_size := v\<rparr>))"

text \<open>
  What \<^verbatim>\<open>event_bus.publish\<close> and the progress callback receive, in order. The subscribers and
  the callback are code of the caller; their calls are recorded.
\<close>

datatype Event =
    CLEAN_STARTED nat
  | CLEAN_PROGRESS nat nat nat rat
  | CLEAN_COMPLETED nat rat rat
  | CLEAN_FAILED nat nat "string list"
  | PROGRESS_CALLBACK nat nat

text \<open>
  Everything outside the controller object: the file system, the state manager singleton, the
  class attribute with the protected paths, whether the module \<^verbatim>\<open>send2trash\<close> could be
  imported, what the operating system does when a path is sent to the recycle bin (the file
  system afterwards, or \<open>None\<close> when the call raises), and the events published so far.
\<close>

record World =
  file_system :: FileSystem
  state_manager :: StateManager
  protected_paths :: "string list"
  send2trash_available :: bool
  os_send2trash :: "FileSystem \<Rightarrow> PurePath \<Rightarrow> FileSystem option"
  events :: "Event list"

definition publish :: "Event \<Rightarrow> World \<Rightarrow> World" where
  "publish e w = w\<lparr>events := events w @ [e]\<rparr>"

text \<open>
  \<^verbatim>\<open>send2trash(path)\<close>: the operating system moves the file and the file system is what it
  leaves, or the call raises (\<open>None\<close>).
\<close>

definition send2trash :: "PurePath \<Rightarrow> World \<Rightarrow> World option" where
  "send2trash p w =
     (case os_send2trash w (file_system w) p of
        None \<Rightarrow> None
      | Some f' \<Rightarrow> Some (w\<lparr>file_system := f'\<rparr>))"

text \<open>\<^verbatim>\<open>_delete_file\<close>: a simulated delete without the module; \<^verbatim>\<open>False\<close> when the call raises.\<close>

definition delete_file :: "PurePath \<Rightarrow> World \<Rightarrow> bool \<times> World" where
  "delete_file p w =
     (if \<not> send2trash_available w then (True, w)
      else (case send2trash p w of
              Some w' \<Rightarrow> (True, w')
            | None \<Rightarrow> (False, w)))"

text \<open>
  The loop of \<^verbatim>\<open>CleanerExecutor.clean\<close>. \<open>cancelled\<close> is the executor's own flag, \<open>cb\<close> says
  whether a progress callback was passed, \<open>index\<close> counts from 0. A file that fails the safety
  check is counted as skipped and the loop continues with the next file (no callback, no
  progress event for it).
\<close>

fun clean_loop ::
    "bool \<Rightarrow> bool \<Rightarrow> nat \<Rightarrow> nat \<Rightarrow> FileInfo list \<Rightarrow> CleanResult \<times> World \<Rightarrow> CleanResult \<times> World" where
  "clean_loop cancelled cb total_files index [] (r, w) = (r, w)"
| "clean_loop cancelled cb total_files index (fi # rest) (r, w) =
     (if cancelled \<or> is_cancel_requested (state_manager w)
      then (r\<lparr>success := False, errors := errors r @ [''Cancelled by user'']\<rparr>, w)
      else
        (case is_safe_to_delete (file_system w) (protected_paths w) (path fi) [] of
           (False, why) \<Rightarrow>
             clean_loop cancelled cb total_files (Suc index) rest (r\<lparr>skipped := skipped r + 1\<rparr>, w)
         | (True, why) \<Rightarrow>
             (case delete_file (path fi) w of
                (deleted, w1) \<Rightarrow>
                  (let r1 = (if deleted
                             then r\<lparr>files_deleted := files_deleted r + 1,
                                   total_size := total_size r + size_bytes fi\<rparr>
                             else r\<lparr>errors := errors r @
                                        [''Failed to delete: '' @ path_str (path fi)]\<rparr>);
                       w2 = (if cb then publish (PROGRESS_CALLBACK (index + 1) total_files) w1 else w1);
                       w3 = (if (index + 1) mod 10 = 0 \<or> index + 1 = total_files
                             then publish (CLEAN_PROGRESS (index + 1) total_files
                                            (files_deleted r1) (total_size r1)) w2
                             else w2)
                   in clean_loop cancelled cb total_files (Suc index) rest (r1, w3)))))"

text \<open>
  \<^verbatim>\<open>CleanerExecutor.clean(files, progress_callback)\<close>; \<open>elapsed\<close> is what the clock measures
  between the start and the end of the call.
\<close>

definition clean :: "bool \<Rightarrow> bool \<Rightarrow> rat \<Rightarrow> FileInfo list \<Rightarrow> World \<Rightarrow> CleanResult \<times> World" where
  "clean cancelled cb elapsed files w =
     (if files = [] then (new_CleanResult, w)
      else
        (case clean_loop cancelled cb (length files) 0 files
                (new_CleanResult, publish (CLEAN_STARTED (length files)) w) of
           (r0, w1) \<Rightarrow>
             (let r = r0\<lparr>duration := elapsed\<rparr> in
              if success r \<and> length (errors r) = 0
              then (r, publish (CLEAN_COMPLETED (files_deleted r) (total_size r) (duration r)) w1)
              else (r, publish (CLEAN_FAILED (files_deleted r) (length (errors r))
                                  (take 5 (errors r))) w1))))"

section \<open>CleanController (\<^verbatim>\<open>clean_controller.py\<close>)\<close>

text \<open>
  The controller object. \<open>cleaner_cancelled\<close> is the flag of its \<^verbatim>\<open>CleanerExecutor\<close>;
  \<open>clean_thread\<close> holds the arguments of the worker thread that was started last (the files,
  and whether a callback was passed), \<open>None\<close> while no worker was ever started.
\<close>

record CleanController =
  cleaner_cancelled :: bool
  clean_thread :: "(FileInfo list \<times> bool) option"
  result :: "CleanResult option"
  confirmed :: bool
  preview_files :: "FileInfo list"
  complete_event :: bool

definition new_CleanController :: CleanController where
  "new_CleanController =
     \<lparr>cleaner_cancelled = False, clean_thread = None, result = None, confirmed = False,
      preview_files = [], complete_event = False\<rparr>"

definition RECYCLE_BIN_THRESHOLD :: rat where
  "RECYCLE_BIN_THRESHOLD = 1024 * 1024 * 1024"

text \<open>
  The dictionary \<^verbatim>\<open>preview_clean\<close> returns (without \<^verbatim>\<open>recycle_bin_usage\<close>, a percentage
  formatted from a floating-point product).
\<close>

record PreviewInfo =
  file_count :: nat
  pv_total_size :: rat
  pv_formatted_size :: string
  safe_files :: nat
  risky_files :: nat
  system_files :: nat
  recycle_bin_warning :: bool

text \<open>The classification loop of \<^verbatim>\<open>preview_clean\<close>: (risky, safe, system) counts.\<close>

fun classify :: "World \<Rightarrow> FileInfo list \<Rightarrow> nat \<times> nat \<times> nat \<Rightarrow> nat \<times> nat \<times> nat" where
  "classify w [] acc = acc"
| "classify w (fi # rest) (risky_count, safe_count, system_count) =
     (case is_safe_to_delete (file_system w) (protected_paths w) (path fi) [] of
        (False, why) \<Rightarrow>
          classify w rest
            (risky_count, safe_count,
             if sublist ''system'' (lower why) \<or> sublist ''protected'' (lower why)
             then system_count + 1 else system_count)
      | (True, why) \<Rightarrow>
          (if file_extension fi \<in> set [''.tmp'', ''.cache'', ''.temp'']
           then classify w rest (risky_count, safe_count + 1, system_count)
           else classify w rest (risky_count + 1, safe_count, system_count)))"

text \<open>
  \<^verbatim>\<open>preview_clean(files)\<close>: the first statement stores the files and clears the confirmed
  flag; the rest only reads.
\<close>

definition preview_clean :: "FileInfo list \<Rightarrow> CleanController \<times> World \<Rightarrow> PreviewInfo \<times> CleanController \<times> World" where
  "preview_clean files cw =
     (case cw of (c, w) \<Rightarrow>
        (let c1 = c\<lparr>preview_files := files, confirmed := False\<rparr>;
             total = sum_list (map size_bytes files)
         in case classify w files (0, 0, 0) of
              (risky_count, safe_count, system_count) \<Rightarrow>
                (\<lparr>file_count = length files, pv_total_size = total,
                  pv_formatted_size = format_size_static total,
                  safe_files = safe_count, risky_files = risky_count,
                  system_files = system_count,
                  recycle_bin_warning = (total > RECYCLE_BIN_THRESHOLD)\<rparr>,
                 c1, w)))"

definition confirm_clean :: "CleanController \<times> World \<Rightarrow> bool \<times> CleanController \<times> World" where
  "confirm_clean cw = (case cw of (c, w) \<Rightarrow> (True, c\<lparr>confirmed := True\<rparr>, w))"

definition reset_confirmation :: "CleanController \<times> World \<Rightarrow> CleanController \<times> World" where
  "reset_confirmation cw = (case cw of (c, w) \<Rightarrow> (c\<lparr>confirmed := False, preview_files := []\<rparr>, w))"

text \<open>
  \<^verbatim>\<open>start_clean(files, require_confirmation, progress_callback)\<close>: three guards that return
  \<^verbatim>\<open>False\<close>, then the transition to Cleaning and the start of the worker thread. When the
  transition raises, the handler transitions to Idle (an exception of that call escapes) and
  returns \<^verbatim>\<open>False\<close>.
\<close>

definition start_clean ::
    "FileInfo list \<Rightarrow> bool \<Rightarrow> bool \<Rightarrow> CleanController \<times> World \<Rightarrow>
     (StateTransitionError + bool) \<times> CleanController \<times> World" where
  "start_clean files require_confirmation cb cw =
     (case cw of (c, w) \<Rightarrow>
        if \<not> is_idle (state_manager w) then (Inr False, c, w)
        else if files = [] then (Inr False, c, w)
        else if require_confirmation \<and> \<not> confirmed c then (Inr False, c, w)
        else
          (let c1 = c\<lparr>complete_event := False, result := None\<rparr> in
           case transition_to CLEANING (state_manager w) of
             (Inr ok, sm1) \<Rightarrow> (Inr True, c1\<lparr>clean_thread := Some (files, cb)\<rparr>, w\<lparr>state_manager := sm1\<rparr>)
           | (Inl e, sm1) \<Rightarrow>
               (case transition_to IDLE sm1 of
                  (Inr ok, sm2) \<Rightarrow> (Inr False, c1, w\<lparr>state_manager := sm2\<rparr>)
                | (Inl e2, sm2) \<Rightarrow> (Inl e2, c1, w\<lparr>state_manager := sm2\<rparr>))))"

definition state_value :: "SystemState \<Rightarrow> string" where
  "state_value s =
     (case s of IDLE \<Rightarrow> ''idle'' | SCANNING \<Rightarrow> ''scanning'' | CLEANING \<Rightarrow> ''cleaning''
      | ANALYZING \<Rightarrow> ''analyzing'')"

text \<open>\<^verbatim>\<open>str(e)\<close> of a \<^verbatim>\<open>StateTransitionError\<close>.\<close>

definition error_message :: "StateTransitionError \<Rightarrow> string" where
  "error_message e =
     ''Invalid state transition: '' @ state_value (from_state e) @ '' -> '' @
     state_value (to_state e) @ ''. Please check valid transitions.''"

text \<open>
  \<^verbatim>\<open>_clean_worker\<close>, the body of the worker thread, run to its end: the exception that escapes
  it, if any, and the state afterwards. \<^verbatim>\<open>clean\<close> catches what its calls raise, so the only
  exception in the \<^verbatim>\<open>try\<close> block is a refused transition to Idle; the handler then attempts the
  same transition, which is refused again.
\<close>

definition clean_worker ::
    "rat \<Rightarrow> FileInfo list \<Rightarrow> bool \<Rightarrow> CleanController \<times> World \<Rightarrow>
     StateTransitionError option \<times> CleanController \<times> World" where
  "clean_worker elapsed files cb cw =
     (case cw of (c, w) \<Rightarrow>
        (case clean (cleaner_cancelled c) cb elapsed files w of
           (r, w1) \<Rightarrow>
             (let c1 = c\<lparr>result := Some r\<rparr> in
              case transition_to IDLE (state_manager w1) of
                (Inr ok, sm1) \<Rightarrow> (None, c1\<lparr>complete_event := True\<rparr>, w1\<lparr>state_manager := sm1\<rparr>)
              | (Inl e, sm1) \<Rightarrow>
                  (case transition_to IDLE sm1 of
                     (Inr ok, sm2) \<Rightarrow>
                       (None,
                        c1\<lparr>complete_event := True,
                           result := Some (new_CleanResult\<lparr>success := False,
                                             errors := [error_message e]\<rparr>)\<rparr>,
                        w1\<lparr>state_manager := sm2\<rparr>)
                   | (Inl e2, sm2) \<Rightarrow> (Some e2, c1, w1\<lparr>state_manager := sm2\<rparr>)))))"

text \<open>Running the worker that \<^verbatim>\<open>start_clean\<close> started, with the arguments it was given.\<close>

definition run_clean_thread ::
    "rat \<Rightarrow> CleanController \<times> World \<Rightarrow> StateTransitionError option \<times> CleanController \<times> World" where
  "run_clean_thread elapsed cw =
     (case clean_thread (fst cw) of
        None \<Rightarrow> (None, cw)
      | Some (files, cb) \<Rightarrow> clean_worker elapsed files cb cw)"

definition cancel_clean :: "CleanController \<times> World \<Rightarrow> bool \<times> CleanController \<times> World" where
  "cancel_clean cw =
     (case cw of (c, w) \<Rightarrow>
        if \<not> is_cleaning (state_manager w) then (False, c, w)
        else (True, c\<lparr>cleaner_cancelled := True\<rparr>, w\<lparr>state_manager := request_cancel (request_cancel (state_manager w))\<rparr>))"

definition get_result :: "CleanController \<times> World \<Rightarrow> CleanResult option" where
  "get_result cw = result (fst cw)"

subsection \<open>Call sequences on a controller\<close>

text \<open>The calls a client can make on the controller, and the run of the worker thread.\<close>

datatype Op =
    OpPreview "FileInfo list"
  | OpConfirm
  | OpStart "FileInfo list" bool bool
  | OpRunThread rat
  | OpCancel
  | OpReset

fun apply_op :: "Op \<Rightarrow> CleanController \<times> World \<Rightarrow> CleanController \<times> World" where
  "apply_op (OpPreview files) cw = snd (preview_clean files cw)"
| "apply_op OpConfirm cw = snd (confirm_clean cw)"
| "apply_op (OpStart files require_confirmation cb) cw = snd (start_clean files require_confirmation cb cw)"
| "apply_op (OpRunThread elapsed) cw = snd (run_clean_thread elapsed cw)"
| "apply_op OpCancel cw = snd (cancel_clean cw)"
| "apply_op OpReset cw = reset_confirmation cw"

definition run_ops :: "Op list \<Rightarrow> CleanController \<times> World \<Rightarrow> CleanController \<times> World" where
  "run_ops ops cw = fold apply_op ops cw"

subsection \<open>What the cleaning scenario speaks of\<close>

text \<open>
  A file that passes the safety check and whose deletion succeeds (the recycle-bin call does not
  raise, or is simulated because the module is absent), and a file that does not exist, each
  in a given world. \<open>after_delete f w\<close> is the world that the deletion of \<open>f\<close> leaves: the world
  in which the next file of the list has its turn.
\<close>

definition cleanable :: "World \<Rightarrow> FileInfo \<Rightarrow> bool" where
  "cleanable w f =
     (fst (is_safe_to_delete (file_system w) (protected_paths w) (path f) []) \<and>
      (if send2trash_available w then os_send2trash w (file_system w) (path f) \<noteq> None else True))"

definition missing :: "World \<Rightarrow> FileInfo \<Rightarrow> bool" where
  "missing w f = (\<not> fs_exists (file_system w) (path f))"

definition after_delete :: "FileInfo \<Rightarrow> World \<Rightarrow> World" where
  "after_delete f w = snd (delete_file (path f) w)"

text \<open>Two worlds that differ in the state manager and in the published events only.\<close>

definition same_files :: "World \<Rightarrow> World \<Rightarrow> bool" where
  "same_files w v =
     (file_system w = file_system v \<and> protected_paths w = protected_paths v \<and>
      send2trash_available w = send2trash_available v \<and> os_send2trash w = os_send2trash v)"

text \<open>
  A recycle bin to evaluate on. Sending a path that does not exist raises. Otherwise the file
  is gone under every name: every spelling of the path that differs in letter case only, and
  every path whose real path it was (a link to it).
\<close>

definition recycle :: "FileSystem \<Rightarrow> PurePath \<Rightarrow> FileSystem option" where
  "recycle f p =
     (if fs_exists f p
      then Some (f\<lparr>fs_exists :=
                    (\<lambda>q. fs_exists f q \<and> \<not> ci_eq q p \<and>
                         (case fs_realpath f q of Inl e \<Rightarrow> True | Inr t \<Rightarrow> \<not> ci_eq t p))\<rparr>)
      else None)"

text \<open>A temp directory with four files, and a list of five files whose third does not exist.\<close>

definition temp_fs :: FileSystem where
  "temp_fs =
     ntfs [(Path ''d:/temp/f1.tmp'', Path ''D:/Temp/f1.tmp''),
           (Path ''d:/temp/f2.tmp'', Path ''D:/Temp/f2.tmp''),
           (Path ''d:/temp/f4.tmp'', Path ''D:/Temp/f4.tmp''),
           (Path ''d:/temp/f5.tmp'', Path ''D:/Temp/f5.tmp'')] []"

definition temp_world :: World where
  "temp_world =
     \<lparr>file_system = temp_fs, state_manager = \<lparr>state = IDLE, cancel_flag = False\<rparr>,
      protected_paths = HARDCODED_PROTECTED, send2trash_available = True,
      os_send2trash = recycle, events = []\<rparr>"

definition five_files :: "FileInfo list" where
  "five_files =
     [mk_FileInfo (Path ''D:/Temp/f1.tmp'') 100 False 0,
      mk_FileInfo (Path ''D:/Temp/f2.tmp'') 200 False 0,
      mk_FileInfo (Path ''D:/Temp/f3.tmp'') 300 False 0,
      mk_FileInfo (Path ''D:/Temp/f4.tmp'') 400 False 0,
      mk_FileInfo (Path ''D:/Temp/f5.tmp'') 500 False 0]"

text \<open>The same list with the second file replaced by another spelling of the first.\<close>

definition five_names :: "FileInfo list" where
  "five_names =
     [mk_FileInfo (Path ''D:/Temp/f1.tmp'') 100 False 0,
      mk_FileInfo (Path ''d:/temp/F1.TMP'') 100 False 0,
      mk_FileInfo (Path ''D:/Temp/f3.tmp'') 300 False 0,
      mk_FileInfo (Path ''D:/Temp/f4.tmp'') 400 False 0,
      mk_FileInfo (Path ''D:/Temp/f5.tmp'') 500 False 0]"

subsection \<open>What the comparison of the two engines speaks of\<close>

text \<open>The rule list an engine holds after a load that does not raise.\<close>

definition loaded_rules :: "Regex \<Rightarrow> Config \<Rightarrow> Rule list" where
  "loaded_rules re cfg =
     (case cfg of ConfigRules rs \<Rightarrow> filter (name_pattern_ok re) rs | _ \<Rightarrow> default_rules)"

text \<open>
  The candidates the extension index holds under a lower-case extension: every rule once for
  each of its extensions that equals it up to case, in the order of the rule list.
\<close>

definition by_ext :: "string \<Rightarrow> Rule list \<Rightarrow> Rule list" where
  "by_ext k rs =
     concat (map (\<lambda>r. map (\<lambda>e. r) (filter (\<lambda>e. lower e = k) (file_extensions (conditions r)))) rs)"

definition getk :: "(string \<rightharpoonup> Rule list) \<Rightarrow> string \<Rightarrow> Rule list" where
  "getk m k = (case m k of None \<Rightarrow> [] | Some rs \<Rightarrow> rs)"

subsection \<open>A file system that keeps every spelling\<close>

text \<open>
  Every path exists and resolves to itself, letter case included (no canonical spelling, as on
  a case-sensitive file system).
\<close>

definition plain_fs :: FileSystem where
  "plain_fs = \<lparr>fs_exists = (\<lambda>p. True), fs_realpath = Inr, fs_resolve = Inr\<rparr>"

section \<open>Theorems about the state manager\<close>

lemma VALID_TRANSITIONS_spec: "s' \<in> set (VALID_TRANSITIONS s) \<longleftrightarrow> spec_allowed s s'"
  by (cases s; cases s') (simp_all add: spec_allowed_def)

text \<open>
  Claim C6. For every current state \<open>s\<close> and target \<open>s'\<close>, \<^verbatim>\<open>transition_to(s')\<close> raises exactly
  when \<open>s'\<close> is not allowed from \<open>s\<close> (Idle to Scanning, Analyzing, Cleaning; Scanning to Idle,
  Cleaning; Analyzing to Idle; Cleaning to Idle); the error carries \<open>s\<close> and \<open>s'\<close> and leaves the
  state and the cancel flag as they were; a successful call returns \<^verbatim>\<open>True\<close>, makes \<open>s'\<close> the
  current state and clears the cancel flag.
\<close>

theorem transition_to_iff_allowed:
  "((\<exists>e. fst (transition_to s' sm) = Inl e) \<longleftrightarrow> \<not> spec_allowed (state sm) s') \<and>
   (\<not> spec_allowed (state sm) s' \<longrightarrow>
      transition_to s' sm = (Inl (StateTransitionError (state sm) s'), sm)) \<and>
   (spec_allowed (state sm) s' \<longrightarrow>
      fst (transition_to s' sm) = Inr True \<and>
      state (snd (transition_to s' sm)) = s' \<and>
      cancel_flag (snd (transition_to s' sm)) = False)"
  by (simp add: transition_to_def VALID_TRANSITIONS_spec)

theorem transition_to_iff_allowed_witness:
  "\<not> spec_allowed SCANNING ANALYZING \<and>
   transition_to ANALYZING \<lparr>state = SCANNING, cancel_flag = True\<rparr> =
     (Inl (StateTransitionError SCANNING ANALYZING), \<lparr>state = SCANNING, cancel_flag = True\<rparr>) \<and>
   spec_allowed SCANNING CLEANING \<and>
   fst (transition_to CLEANING \<lparr>state = SCANNING, cancel_flag = True\<rparr>) = Inr True \<and>
   state (snd (transition_to CLEANING \<lparr>state = SCANNING, cancel_flag = True\<rparr>)) = CLEANING \<and>
   cancel_flag (snd (transition_to CLEANING \<lparr>state = SCANNING, cancel_flag = True\<rparr>)) = False"
  using transition_to_iff_allowed [of ANALYZING "\<lparr>state = SCANNING, cancel_flag = True\<rparr>"]
    transition_to_iff_allowed [of CLEANING "\<lparr>state = SCANNING, cancel_flag = True\<rparr>"]
  by (simp add: spec_allowed_def)

section \<open>Theorems about paths and the safety validator\<close>

lemma prefix_take_iff: "prefix xs ys \<longleftrightarrow> (\<not> length ys < length xs \<and> take (length xs) ys = xs)"
  by (metis linorder_not_less prefix_length_le take_is_prefix prefix_def append_eq_conv_conj)

lemma is_path_under_prefix:
  "fs_resolve fs x = Inr x' \<Longrightarrow> fs_resolve fs r = Inr r' \<Longrightarrow>
   is_path_under fs x r = prefix (parts r') (parts x')"
  by (simp add: is_path_under_def prefix_take_iff Let_def)

lemma check_protected_hit:
  "r \<in> set protected \<Longrightarrow> is_path_under fs rp (Path r) \<Longrightarrow>
   \<exists>r0 \<in> set protected. check_protected fs rp protected = Some (''Protected path: '' @ r0)"
  by (induction protected) auto

lemma rejected_if_under:
  assumes "fs_exists fs p" and "fs_realpath fs p = Inr rp" and "r \<in> set protected"
    and "is_path_under fs rp (Path r)"
  shows "rejected_as_protected fs protected p wl"
proof -
  from check_protected_hit [OF assms(3,4)]
  obtain r0 where "r0 \<in> set protected" "check_protected fs rp protected = Some (''Protected path: '' @ r0)"
    by auto
  then show ?thesis
    using assms(1,2) by (auto simp: rejected_as_protected_def is_safe_to_delete_def)
qed

lemma is_sep_lower [simp]: "is_sep (lower_char c) = is_sep c"
  by (auto simp: is_sep_def lower_char_def split: option.splits if_splits)

lemma lower_char_colon [simp]: "lower_char c = CHR '':'' \<longleftrightarrow> c = CHR '':''"
  by (auto simp: lower_char_def split: option.splits if_splits)

lemma lower_dot [simp]: "lower x = ''.'' \<longleftrightarrow> x = ''.''"
  by (cases x) (auto simp: lower_def lower_char_def split: option.splits if_splits)

lemma lower_Nil [simp]: "lower x = [] \<longleftrightarrow> x = []"
  by (simp add: lower_def)

lemma length_lower [simp]: "length (lower s) = length s"
  by (simp add: lower_def)

lemma split_on_ne: "split_on P s \<noteq> []"
  by (induction s) (auto split: list.splits)

lemma split_on_lower: "split_on is_sep (lower s) = map lower (split_on is_sep s)"
  by (induction s) (auto simp: lower_def split: list.splits)

lemma components_lower: "components (lower r) = map lower (components r)"
proof -
  have "filter (\<lambda>x. x \<noteq> [] \<and> x \<noteq> ''.'') (map lower xs) =
        map lower (filter (\<lambda>x. x \<noteq> [] \<and> x \<noteq> ''.'') xs)" for xs
    by (induction xs) auto
  then show ?thesis by (simp add: components_def split_on_lower)
qed

lemma drive_of_lower: "drive_of (lower s) = lower (drive_of s)"
  by (auto simp: drive_of_def lower_def take_map)

lemma lower_BS: "lower BS = BS"
  by (simp add: lower_def lower_char_def)

lemma root_of_lower: "root_of (lower r) = lower (root_of r)"
proof (cases r)
  case Nil
  then show ?thesis by (simp add: root_of_def lower_def)
next
  case (Cons x xs)
  have "lower (x # xs) = lower_char x # lower xs" by (simp add: lower_def)
  then show ?thesis
    unfolding Cons root_of_def using lower_BS by (simp add: lower_def)
qed

lemma Path_lower: "Path (lower s) = lower_path (Path s)"
proof -
  have dr: "drop n (lower s) = lower (drop n s)" for n by (simp add: lower_def drop_map)
  have app: "lower (a @ b) = lower a @ lower b" for a b by (simp add: lower_def)
  show ?thesis
    by (simp add: Path_def Let_def lower_path_def drive_of_lower dr root_of_lower components_lower app)
qed

lemma split_on_snoc: "P c \<Longrightarrow> split_on P (s @ [c]) = split_on P s @ [[]]"
  by (induction s) (auto split: list.splits simp: split_on_ne)

lemma components_snoc: "is_sep c \<Longrightarrow> components (r @ [c]) = components r"
  by (simp add: components_def split_on_snoc)

lemma components_Nil: "components [] = []"
  by (simp add: components_def)

lemma drive_of_snoc:
  assumes c: "is_sep c" and ne: "s \<noteq> []"
  shows "drive_of (s @ [c]) = drive_of s"
proof (cases "2 \<le> length s")
  case True
  then show ?thesis by (simp add: drive_of_def nth_append)
next
  case False
  with ne obtain x where s: "s = [x]"
    by (cases s) (auto simp: Suc_le_eq)
  from c have "c \<noteq> CHR '':''" by (auto simp: is_sep_def)
  then show ?thesis by (simp add: s drive_of_def)
qed

lemma Path_trailing_sep:
  assumes c: "is_sep c" and ne: "comps (Path s) \<noteq> []"
  shows "Path (s @ [c]) = Path s"
proof -
  define rest where "rest = drop (length (drive_of s)) s"
  have rest_ne: "rest \<noteq> []"
    using ne by (auto simp: Path_def Let_def rest_def components_Nil)
  then have s_ne: "s \<noteq> []" by (auto simp: rest_def)
  have len: "length (drive_of s) \<le> length s" by (simp add: drive_of_def)
  have rest': "drop (length (drive_of s)) (s @ [c]) = rest @ [c]"
    using len by (simp add: rest_def)
  have root: "root_of (rest @ [c]) = root_of rest"
    using rest_ne by (simp add: root_of_def)
  have "Path (s @ [c]) = \<lparr>anchor = drive_of s @ root_of (rest @ [c]), comps = components (rest @ [c])\<rparr>"
    unfolding Path_def Let_def drive_of_snoc [OF c s_ne] rest' ..
  also have "\<dots> = \<lparr>anchor = drive_of s @ root_of rest, comps = components rest\<rparr>"
    by (simp only: root components_snoc [OF c])
  also have "\<dots> = Path s"
    unfolding Path_def Let_def rest_def ..
  finally show ?thesis .
qed

lemma Path_respelled:
  "lower r' = lower r \<Longrightarrow> ci_eq (Path r) (Path r')"
  by (metis Path_lower ci_eq_def)


lemma ntfs_case_insensitive: "case_insensitive_fs (ntfs es ls)"
  by (auto simp: case_insensitive_fs_def ntfs_def Let_def ci_eq_def)

text \<open>
  Claim C1 fails on the entry for the recycle bin store. Eight entries of the protected list
  are absolute paths; the ninth is written \<^verbatim>\<open>C:$Recycle.Bin\<close>, with no separator after the
  drive, so \<^verbatim>\<open>Path(protected).resolve()\<close> takes it from the current directory of drive C.
  With the current directory \<^verbatim>\<open>C:/Users/me\<close>, an existing file of the recycle bin store (its
  real path is under \<^verbatim>\<open>C:/$Recycle.Bin\<close>) is declared safe to delete, while a file under the
  sibling entry for the recovery directory is rejected; the file of the recycle bin store is
  rejected only when the current directory is the root of the drive. The comparison of check 1
  is exact as well: where resolution keeps the spelling it is given, a path under the
  protected root in the root's spelling is rejected and the same path in another letter case
  is declared safe to delete.
\<close>

theorem protected_check_misses:
  "fs_exists volume_fs (Path ''C:/$Recycle.Bin/S-1-5-18/$R1.tmp'') \<and>
   fs_realpath volume_fs (Path ''C:/$Recycle.Bin/S-1-5-18/$R1.tmp'') =
     Inr (Path ''C:/$Recycle.Bin/S-1-5-18/$R1.tmp'') \<and>
   fs_resolve volume_fs (Path ''C:$Recycle.Bin'') = Inr (Path ''C:/Users/me/$Recycle.Bin'') \<and>
   is_safe_to_delete volume_fs HARDCODED_PROTECTED (Path ''C:/$Recycle.Bin/S-1-5-18/$R1.tmp'') []
     = (True, ''OK'') \<and>
   is_safe_to_delete volume_fs HARDCODED_PROTECTED (Path ''C:/Recovery/winre.wim'') []
     = (False, ''Protected path: C:'' @ BS @ ''Recovery'') \<and>
   is_safe_to_delete volume_fs_at_root HARDCODED_PROTECTED
       (Path ''C:/$Recycle.Bin/S-1-5-18/$R1.tmp'') []
     = (False, ''Protected path: C:$Recycle.Bin'') \<and>
   is_safe_to_delete plain_fs HARDCODED_PROTECTED (Path ''C:/Windows/x.tmp'') []
     = (False, ''Protected path: C:'' @ BS @ ''Windows'') \<and>
   is_safe_to_delete plain_fs HARDCODED_PROTECTED (Path ''c:/windows/x.tmp'') [] = (True, ''OK'')"
  by code_simp

text \<open>
  Claim C3. After the real path is computed, only check 1 reads it: the system-file check and
  the whitelist check read the name and the suffix of the path as given. On the file system
  above, \<^verbatim>\<open>D:/Temp/link.tmp\<close> is a link to \<^verbatim>\<open>D:/Data/pagefile.sys\<close> and
  \<^verbatim>\<open>D:/Temp/alias.tmp\<close> a link to \<^verbatim>\<open>D:/Data/report.docx\<close>. Both links are declared safe to
  delete, while their real paths are rejected (a critical system file; a whitelisted extension).
\<close>

theorem checks_read_unresolved_path:
  "fs_realpath demo_fs (Path ''D:/Temp/link.tmp'') = Inr (Path ''D:/Data/pagefile.sys'') \<and>
   is_safe_to_delete demo_fs HARDCODED_PROTECTED (Path ''D:/Temp/link.tmp'') [] = (True, ''OK'') \<and>
   is_safe_to_delete demo_fs HARDCODED_PROTECTED (Path ''D:/Data/pagefile.sys'') []
     = (False, ''System file: pagefile.sys'') \<and>
   fs_realpath demo_fs (Path ''D:/Temp/alias.tmp'') = Inr (Path ''D:/Data/report.docx'') \<and>
   is_safe_to_delete demo_fs HARDCODED_PROTECTED (Path ''D:/Temp/alias.tmp'') [''.docx'']
     = (True, ''OK'') \<and>
   is_safe_to_delete demo_fs HARDCODED_PROTECTED (Path ''D:/Data/report.docx'') [''.docx'']
     = (False, ''Whitelisted extension: .docx'')"
  by code_simp

section \<open>Theorems about the rule engines\<close>

lemma enabled_rules_fold:
  "enabled_rules (fold index_rule rs idx) = enabled_rules idx @ filter enabled rs"
  by (induction rs arbitrary: idx) (simp_all add: index_rule_def Let_def)

lemma enabled_rules_mk_RuleIndex: "enabled_rules (mk_RuleIndex rs) = filter enabled rs"
  by (simp add: mk_RuleIndex_def enabled_rules_fold)

lemma load_rules_index:
  "load_rules re cfg eng0 = Inr eng \<Longrightarrow>
   rule_index eng = Some (PlainIndex (mk_RuleIndex (rules eng)))"
  by (auto simp: load_rules_def Let_def split: Config.splits)

lemma load_rules_Inr:
  "cfg \<noteq> InvalidJSON \<Longrightarrow> load_rules re cfg eng0 = Inr (projr (load_rules re cfg eng0))"
  by (cases cfg) (simp_all add: load_rules_def Let_def)

lemma first_match_filter_enabled:
  "first_match re (filter enabled rs) f = first_match re rs f"
  by (induction rs) (simp_all add: rule_matches_def)

lemma first_match_append_miss:
  "\<forall>r \<in> set pre. \<not> rule_matches re r f \<Longrightarrow> first_match re (pre @ rs) f = first_match re rs f"
  by (induction pre) simp_all

lemma first_match_None: "first_match re rs f = None \<longleftrightarrow> (\<forall>r \<in> set rs. \<not> rule_matches re r f)"
  by (induction rs) simp_all

lemma match_file_loaded:
  assumes "load_rules re cfg eng0 = Inr eng"
  shows "match_file re cfg' eng f = (Inr (match_result (first_match re (rules eng) f) f), eng)"
  using load_rules_index [OF assms]
  by (simp add: match_file_def enabled_rules_mk_RuleIndex first_match_filter_enabled)

text \<open>
  Claim C5. On an engine whose rules were loaded, \<^verbatim>\<open>match_file\<close> returns the first rule of the
  configured order that is enabled and whose conditions the file satisfies: when the rule list
  is \<open>pre @ A # post\<close>, \<open>A\<close> is enabled and matches, and no rule of \<open>pre\<close> is enabled and
  matches, the result has \<open>matched\<close> and carries \<open>A\<close>, also when a later enabled rule \<open>B\<close>
  matches as well; when no enabled rule matches, the result is the explicit unmatched one
  (\<open>matched\<close> false, no rule), not a default tier. The engine is left as it was.
\<close>

theorem match_file_first_match:
  assumes "load_rules re cfg eng0 = Inr eng"
  shows "(rules eng = pre @ A # post \<and> enabled A \<and> conditions_matches re (conditions A) f \<and>
            (\<forall>r \<in> set pre. \<not> (enabled r \<and> conditions_matches re (conditions r) f)) \<longrightarrow>
            (\<exists>m. match_file re cfg' eng f = (Inr m, eng) \<and> matched m \<and> rule m = Some A)) \<and>
         (rules eng = pre @ A # mid @ B # post \<and>
            enabled A \<and> conditions_matches re (conditions A) f \<and>
            enabled B \<and> conditions_matches re (conditions B) f \<and>
            (\<forall>r \<in> set pre. \<not> (enabled r \<and> conditions_matches re (conditions r) f)) \<longrightarrow>
            (\<exists>m. match_file re cfg' eng f = (Inr m, eng) \<and> matched m \<and> rule m = Some A)) \<and>
         ((\<forall>r \<in> set (rules eng). \<not> (enabled r \<and> conditions_matches re (conditions r) f)) \<longrightarrow>
            (\<exists>m. match_file re cfg' eng f = (Inr m, eng) \<and> \<not> matched m \<and> rule m = None))"
proof -
  have rm: "rule_matches re r f \<longleftrightarrow> enabled r \<and> conditions_matches re (conditions r) f" for r
    by (simp add: rule_matches_def)
  have hit: "first_match re (pre @ A # rest) f = Some A"
    if "rule_matches re A f" "\<forall>r \<in> set pre. \<not> rule_matches re r f" for rest
    using that by (simp add: first_match_append_miss)
  have miss: "first_match re (rules eng) f = None" if "\<forall>r \<in> set (rules eng). \<not> rule_matches re r f"
    using that by (simp add: first_match_None)
  show ?thesis
    using hit [of post] hit [of "mid @ B # post"] miss
    by (auto simp: match_file_loaded [OF assms] match_result_def rm)
qed

theorem match_file_first_match_witness:
  "(\<exists>m. match_file demo_re NoConfigFile
          (projr (load_rules demo_re (ConfigRules [rule_all, rule_tmp]) new_RuleEngine)) a_tmp
        = (Inr m, projr (load_rules demo_re (ConfigRules [rule_all, rule_tmp]) new_RuleEngine)) \<and>
        matched m \<and> rule m = Some rule_all) \<and>
   (\<exists>m. match_file demo_re NoConfigFile
          (projr (load_rules demo_re (ConfigRules [rule_big_tmp, rule_tmp]) new_RuleEngine)) c_txt
        = (Inr m, projr (load_rules demo_re (ConfigRules [rule_big_tmp, rule_tmp]) new_RuleEngine)) \<and>
        \<not> matched m \<and> rule m = None)"
proof -
  let ?e1 = "projr (load_rules demo_re (ConfigRules [rule_all, rule_tmp]) new_RuleEngine)"
  let ?e2 = "projr (load_rules demo_re (ConfigRules [rule_big_tmp, rule_tmp]) new_RuleEngine)"
  have l1: "load_rules demo_re (ConfigRules [rule_all, rule_tmp]) new_RuleEngine = Inr ?e1"
    by (rule load_rules_Inr) simp
  have l2: "load_rules demo_re (ConfigRules [rule_big_tmp, rule_tmp]) new_RuleEngine = Inr ?e2"
    by (rule load_rules_Inr) simp
  have r1: "rules ?e1 = [] @ rule_all # [] @ rule_tmp # []" by code_simp
  have A: "enabled rule_all \<and> conditions_matches demo_re (conditions rule_all) a_tmp" by code_simp
  have B: "enabled rule_tmp \<and> conditions_matches demo_re (conditions rule_tmp) a_tmp" by code_simp
  have n2: "\<forall>r \<in> set (rules ?e2). \<not> (enabled r \<and> conditions_matches demo_re (conditions r) c_txt)"
    by code_simp
  from match_file_first_match [OF l1, where pre = "[]" and A = rule_all and mid = "[]" and B = rule_tmp
      and post = "[]" and f = a_tmp and cfg' = NoConfigFile] r1 A B
  have "\<exists>m. match_file demo_re NoConfigFile ?e1 a_tmp = (Inr m, ?e1) \<and> matched m \<and> rule m = Some rule_all"
    by simp
  moreover
  from match_file_first_match [OF l2, where f = c_txt and cfg' = NoConfigFile] n2
  have "\<exists>m. match_file demo_re NoConfigFile ?e2 c_txt = (Inr m, ?e2) \<and> \<not> matched m \<and> rule m = None"
    by blast
  ultimately show ?thesis by blast
qed

text \<open>
  Claim C4. The two engines disagree. With the rules \<open>[rule_all, rule_tmp]\<close> loaded into both,
  the file \<^verbatim>\<open>a.tmp\<close> matches both rules: the baseline returns the first, \<open>rule_all\<close>, while the
  optimized engine looks only at the rules indexed under \<^verbatim>\<open>.tmp\<close> and returns \<open>rule_tmp\<close>.
  With \<open>[rule_big_tmp, rule_all]\<close> the baseline matches \<^verbatim>\<open>a.tmp\<close> (10 bytes) with \<open>rule_all\<close>
  and the optimized engine reports no match. The list \<^verbatim>\<open>rules_without_extension\<close> is filled
  and never read. With an empty rule list the optimized load keeps the plain index and
  \<^verbatim>\<open>match_file\<close> raises \<^verbatim>\<open>AttributeError\<close>, where the baseline returns the unmatched result.
\<close>

theorem optimized_engine_differs:
  "fst (opt_load_rules demo_re (ConfigRules [rule_all, rule_tmp]) new_OptimizedRuleEngine) = Inr () \<and>
   match_cache (snd (opt_load_rules demo_re (ConfigRules [rule_all, rule_tmp]) new_OptimizedRuleEngine)) = [] \<and>
   fst (match_file demo_re NoConfigFile
         (projr (load_rules demo_re (ConfigRules [rule_all, rule_tmp]) new_RuleEngine)) a_tmp)
     = Inr (match_result (Some rule_all) a_tmp) \<and>
   fst (opt_match_file demo_re NoConfigFile
         (snd (opt_load_rules demo_re (ConfigRules [rule_all, rule_tmp]) new_OptimizedRuleEngine)) a_tmp)
     = Inr (match_result (Some rule_tmp) a_tmp) \<and>
   rule_all \<noteq> rule_tmp \<and>
   fst (opt_load_rules demo_re (ConfigRules [rule_big_tmp, rule_all]) new_OptimizedRuleEngine) = Inr () \<and>
   fst (match_file demo_re NoConfigFile
         (projr (load_rules demo_re (ConfigRules [rule_big_tmp, rule_all]) new_RuleEngine)) a_tmp)
     = Inr (match_result (Some rule_all) a_tmp) \<and>
   fst (opt_match_file demo_re NoConfigFile
         (snd (opt_load_rules demo_re (ConfigRules [rule_big_tmp, rule_all]) new_OptimizedRuleEngine)) a_tmp)
     = Inr (match_result None a_tmp) \<and>
   fst (opt_load_rules demo_re (ConfigRules []) new_OptimizedRuleEngine) = Inr () \<and>
   fst (match_file demo_re NoConfigFile
         (projr (load_rules demo_re (ConfigRules []) new_RuleEngine)) a_tmp)
     = Inr (match_result None a_tmp) \<and>
   fst (opt_match_file demo_re NoConfigFile
         (snd (opt_load_rules demo_re (ConfigRules []) new_OptimizedRuleEngine)) a_tmp)
     = Inl AttributeError"
  by code_simp

section \<open>Theorems about the clean controller\<close>

lemma snd_preview_clean:
  "snd (preview_clean files (c, w)) = (c\<lparr>preview_files := files, confirmed := False\<rparr>, w)"
  by (cases "classify w files (0, 0, 0)") (simp add: preview_clean_def Let_def)

lemma confirmed_start_clean:
  "confirmed (fst (snd (start_clean files rc cb (c, w)))) = confirmed c"
  by (simp add: start_clean_def Let_def split: prod.splits sum.splits)

lemma confirmed_clean_worker:
  "confirmed (fst (snd (clean_worker elapsed files cb (c, w)))) = confirmed c"
  by (simp add: clean_worker_def Let_def split: prod.splits sum.splits)

lemma confirmed_run_clean_thread:
  "confirmed (fst (snd (run_clean_thread elapsed (c, w)))) = confirmed c"
  by (simp add: run_clean_thread_def confirmed_clean_worker split: option.splits prod.splits)

lemma confirmed_cancel_clean:
  "confirmed (fst (snd (cancel_clean (c, w)))) = confirmed c"
  by (simp add: cancel_clean_def)

lemma apply_op_unconfirmed:
  "op \<noteq> OpConfirm \<Longrightarrow> \<not> confirmed (fst cw) \<Longrightarrow> \<not> confirmed (fst (apply_op op cw))"
  by (cases op; cases cw)
     (simp_all add: snd_preview_clean confirmed_start_clean confirmed_run_clean_thread
        confirmed_cancel_clean reset_confirmation_def)

lemma run_ops_unconfirmed:
  "OpConfirm \<notin> set ops \<Longrightarrow> \<not> confirmed (fst cw) \<Longrightarrow> \<not> confirmed (fst (run_ops ops cw))"
  unfolding run_ops_def
proof (induction ops arbitrary: cw)
  case Nil
  then show ?case by simp
next
  case (Cons op ops)
  from Cons.prems have "op \<noteq> OpConfirm" "OpConfirm \<notin> set ops" by auto
  with Cons.prems have "\<not> confirmed (fst (apply_op op cw))" by (simp add: apply_op_unconfirmed)
  with Cons.IH [OF \<open>OpConfirm \<notin> set ops\<close>] show ?case by simp
qed

lemma start_clean_refuses: "\<not> confirmed (fst cw) \<Longrightarrow> start_clean files True cb cw = (Inr False, cw)"
  by (cases cw) (simp add: start_clean_def)

text \<open>
  Claim C2. With \<^verbatim>\<open>require_confirmation\<close> true and the confirmed flag not set,
  \<^verbatim>\<open>start_clean\<close> returns \<^verbatim>\<open>False\<close> and leaves the controller and the world exactly as they
  were, for every file list and callback: no worker thread is recorded, the file system is the
  same (nothing deleted), the state manager is the same. The flag is not set on a new
  controller or after \<^verbatim>\<open>reset_confirmation\<close>, and no call other than \<^verbatim>\<open>confirm_clean\<close> sets
  it: after any sequence of calls without \<^verbatim>\<open>confirm_clean\<close> the start is refused.
\<close>

theorem start_clean_unconfirmed:
  "(\<not> confirmed c \<longrightarrow> start_clean files True cb (c, w) = (Inr False, c, w)) \<and>
   (OpConfirm \<notin> set ops \<longrightarrow>
      start_clean files True cb (run_ops ops (new_CleanController, w)) =
        (Inr False, run_ops ops (new_CleanController, w))) \<and>
   (OpConfirm \<notin> set ops \<longrightarrow>
      start_clean files True cb (run_ops ops (reset_confirmation (c, w))) =
        (Inr False, run_ops ops (reset_confirmation (c, w))))"
proof -
  have a: "\<not> confirmed (fst (new_CleanController, w))" by (simp add: new_CleanController_def)
  have b: "\<not> confirmed (fst (reset_confirmation (c, w)))" by (simp add: reset_confirmation_def)
  show ?thesis
    using run_ops_unconfirmed [OF _ a, of ops] run_ops_unconfirmed [OF _ b, of ops]
    by (auto simp: start_clean_refuses)
qed

theorem start_clean_unconfirmed_witness:
  "\<not> confirmed new_CleanController \<and>
   start_clean five_files True False (new_CleanController, temp_world) =
     (Inr False, new_CleanController, temp_world) \<and>
   OpConfirm \<notin> set [OpPreview five_files, OpStart five_files True False, OpRunThread 0] \<and>
   start_clean five_files True False
       (run_ops [OpPreview five_files, OpStart five_files True False, OpRunThread 0]
          (new_CleanController, temp_world)) =
     (Inr False,
      run_ops [OpPreview five_files, OpStart five_files True False, OpRunThread 0]
        (new_CleanController, temp_world)) \<and>
   fst (start_clean five_files True False (snd (confirm_clean (new_CleanController, temp_world)))) = Inr True"
proof -
  have a: "\<not> confirmed new_CleanController" by (simp add: new_CleanController_def)
  have b: "OpConfirm \<notin> set [OpPreview five_files, OpStart five_files True False, OpRunThread 0]"
    by simp
  have c: "five_files \<noteq> []" by (simp add: five_files_def)
  have d: "fst (start_clean five_files True False (snd (confirm_clean (new_CleanController, temp_world)))) = Inr True"
    using c by (simp add: start_clean_def confirm_clean_def temp_world_def is_idle_def transition_to_def)
  from start_clean_unconfirmed [of new_CleanController five_files False temp_world
      "[OpPreview five_files, OpStart five_files True False, OpRunThread 0]"] a b d
  show ?thesis by blast
qed

text \<open>
  Claim C8. In every state other than Idle (Scanning included) \<^verbatim>\<open>start_clean\<close> returns
  \<^verbatim>\<open>False\<close> at its first guard, whatever the arguments and the confirmed flag, and leaves the
  controller and the world as they were: no worker, and the state manager untouched (a
  transition attempted from Scanning would have succeeded and changed the state). The state
  machine itself allows Scanning to Cleaning: \<^verbatim>\<open>transition_to(CLEANING)\<close> succeeds there.
\<close>

theorem start_clean_not_idle:
  "(state (state_manager w) \<noteq> IDLE \<longrightarrow>
      start_clean files require_confirmation cb (c, w) = (Inr False, c, w)) \<and>
   (state sm0 = SCANNING \<longrightarrow>
      CLEANING \<in> set (VALID_TRANSITIONS (state sm0)) \<and>
      transition_to CLEANING sm0 = (Inr True, sm0\<lparr>state := CLEANING, cancel_flag := False\<rparr>))"
  by (simp add: start_clean_def is_idle_def transition_to_def)

theorem start_clean_not_idle_witness:
  "start_clean five_files False False
     (new_CleanController\<lparr>confirmed := True\<rparr>,
      temp_world\<lparr>state_manager := \<lparr>state = SCANNING, cancel_flag = False\<rparr>\<rparr>) =
   (Inr False, new_CleanController\<lparr>confirmed := True\<rparr>,
    temp_world\<lparr>state_manager := \<lparr>state = SCANNING, cancel_flag = False\<rparr>\<rparr>) \<and>
   CLEANING \<in> set (VALID_TRANSITIONS SCANNING) \<and>
   transition_to CLEANING \<lparr>state = SCANNING, cancel_flag = False\<rparr> =
     (Inr True, \<lparr>state = CLEANING, cancel_flag = False\<rparr>)"
  using start_clean_not_idle [of "temp_world\<lparr>state_manager := \<lparr>state = SCANNING, cancel_flag = False\<rparr>\<rparr>"
      five_files False False "new_CleanController\<lparr>confirmed := True\<rparr>"
      "\<lparr>state = SCANNING, cancel_flag = False\<rparr>"]
  by simp

text \<open>
  Claim C9. \<^verbatim>\<open>preview_clean\<close> clears the confirmed flag in its first statement. So after
  \<^verbatim>\<open>confirm_clean\<close> followed by \<^verbatim>\<open>preview_clean\<close>, and then any calls other than
  \<^verbatim>\<open>confirm_clean\<close>, \<^verbatim>\<open>start_clean\<close> with the default arguments returns \<^verbatim>\<open>False\<close> and
  changes nothing (no worker, no deletion).
\<close>

theorem preview_clean_resets_confirmation:
  "\<not> confirmed (fst (snd (preview_clean files (c, w)))) \<and>
   (OpConfirm \<notin> set ops \<longrightarrow>
      start_clean files' True cb (run_ops ops (snd (preview_clean files (snd (confirm_clean (c, w)))))) =
        (Inr False, run_ops ops (snd (preview_clean files (snd (confirm_clean (c, w)))))))"
proof -
  have a: "\<not> confirmed (fst (snd (preview_clean files cw)))" for cw
    by (cases cw) (simp add: snd_preview_clean)
  show ?thesis
    using run_ops_unconfirmed [OF _ a, of ops] a
    by (auto simp: start_clean_refuses)
qed

theorem preview_clean_resets_confirmation_witness:
  "\<not> confirmed (fst (snd (preview_clean five_files (new_CleanController, temp_world)))) \<and>
   start_clean five_files True False
       (run_ops [] (snd (preview_clean five_files (snd (confirm_clean (new_CleanController, temp_world)))))) =
     (Inr False,
      run_ops [] (snd (preview_clean five_files (snd (confirm_clean (new_CleanController, temp_world)))))) \<and>
   run_ops [] (snd (preview_clean five_files (snd (confirm_clean (new_CleanController, temp_world))))) =
     (new_CleanController\<lparr>confirmed := False, preview_files := five_files\<rparr>, temp_world)"
proof -
  have "OpConfirm \<notin> set []" by simp
  with preview_clean_resets_confirmation [of five_files new_CleanController temp_world "[]" five_files False]
  show ?thesis
    by (simp add: run_ops_def snd_preview_clean confirm_clean_def new_CleanController_def)
qed

section \<open>Theorems about the cleaner\<close>

lemma is_safe_missing: "\<not> fs_exists f p \<Longrightarrow> fst (is_safe_to_delete f prot p wl) = False"
  by (simp add: is_safe_to_delete_def)

lemma cleanable_not_missing: "cleanable w f \<Longrightarrow> \<not> missing w f"
  using is_safe_missing [of "file_system w" "path f" "protected_paths w" "[]"]
  by (auto simp: cleanable_def missing_def)

lemma same_files_refl [simp]: "same_files w w"
  by (simp add: same_files_def)

lemma same_files_publish [simp]: "same_files (publish e w) v = same_files w v"
  by (simp add: same_files_def publish_def)

lemma same_files_sm [simp]: "same_files (w\<lparr>state_manager := s\<rparr>) v = same_files w v"
  by (simp add: same_files_def)

lemma cleanable_same: "same_files w v \<Longrightarrow> cleanable w f = cleanable v f"
  by (simp add: cleanable_def same_files_def)

lemma missing_same: "same_files w v \<Longrightarrow> missing w f = missing v f"
  by (simp add: missing_def same_files_def)

lemma delete_file_cleanable:
  "cleanable w f \<Longrightarrow> delete_file (path f) w = (True, after_delete f w)"
  by (auto simp: cleanable_def after_delete_def delete_file_def send2trash_def split: option.splits)

lemma after_delete_same:
  "same_files w v \<Longrightarrow> same_files (after_delete f w) (after_delete f v)"
  by (auto simp: same_files_def after_delete_def delete_file_def send2trash_def split: option.splits)

lemma after_delete_state_manager [simp]: "state_manager (after_delete f w) = state_manager w"
  by (auto simp: after_delete_def delete_file_def send2trash_def split: option.splits)

lemma clean_loop_missing:
  assumes "\<not> cancelled" and "\<not> cancel_flag (state_manager w)"
    and "same_files w v" and "missing v f"
  shows "clean_loop cancelled cb n i (f # rest) (r, w) =
         clean_loop cancelled cb n (Suc i) rest (r\<lparr>skipped := skipped r + 1\<rparr>, w)"
proof -
  from assms(3,4) have "missing w f" by (simp add: missing_same)
  then obtain why where "is_safe_to_delete (file_system w) (protected_paths w) (path f) [] = (False, why)"
    using is_safe_missing [of "file_system w" "path f" "protected_paths w" "[]"]
    by (cases "is_safe_to_delete (file_system w) (protected_paths w) (path f) []") (auto simp: missing_def)
  then show ?thesis
    using assms(1,2) by (simp add: is_cancel_requested_def)
qed

lemma clean_loop_cleanable:
  assumes "\<not> cancelled" and "\<not> cancel_flag (state_manager w)"
    and "same_files w v" and "cleanable v f"
  shows "\<exists>w'. clean_loop cancelled cb n i (f # rest) (r, w) =
                clean_loop cancelled cb n (Suc i) rest
                  (r\<lparr>files_deleted := files_deleted r + 1,
                     total_size := total_size r + size_bytes f\<rparr>, w') \<and>
              same_files w' (after_delete f v) \<and> state_manager w' = state_manager w"
proof -
  from assms(3,4) have cl: "cleanable w f" by (simp add: cleanable_same)
  then obtain why where safe: "is_safe_to_delete (file_system w) (protected_paths w) (path f) [] = (True, why)"
    by (cases "is_safe_to_delete (file_system w) (protected_paths w) (path f) []") (auto simp: cleanable_def)
  define w1 where "w1 = after_delete f w"
  define r1 where "r1 = r\<lparr>files_deleted := files_deleted r + 1, total_size := total_size r + size_bytes f\<rparr>"
  define w2 where "w2 = (if cb then publish (PROGRESS_CALLBACK (i + 1) n) w1 else w1)"
  define w3 where "w3 = (if (i + 1) mod 10 = 0 \<or> i + 1 = n
                           then publish (CLEAN_PROGRESS (i + 1) n (files_deleted r1) (total_size r1)) w2
                           else w2)"
  have del: "delete_file (path f) w = (True, w1)"
    using delete_file_cleanable [OF cl] by (simp add: w1_def)
  have step: "clean_loop cancelled cb n i (f # rest) (r, w) = clean_loop cancelled cb n (Suc i) rest (r1, w3)"
    using assms(1,2) safe del
    by (simp add: is_cancel_requested_def Let_def r1_def w2_def w3_def)
  have "same_files w1 (after_delete f v)"
    unfolding w1_def using assms(3) by (rule after_delete_same)
  then have sf: "same_files w3 (after_delete f v)"
    by (simp add: w3_def w2_def)
  have sm: "state_manager w3 = state_manager w"
    by (simp add: w3_def w2_def w1_def publish_def)
  from step sf sm show ?thesis unfolding r1_def by blast
qed

text \<open>
  Claim C7, as the code has it. A confirmed clean over five files, where the third does not
  exist and each of the other four passes the safety check and is deleted successfully when
  its turn comes (in the world that the deletions before it have left), starts, and the worker
  ends with a result in which \<open>files_deleted\<close> is 4, \<open>skipped\<close> is 1, \<open>errors\<close> is empty and
  \<open>success\<close> holds: the missing file fails the safety check (existence is its first test) and
  is counted as skipped, not as an error. The freed size is the sum of the four sizes, the
  state is Idle again and the completion event is set.
\<close>

theorem clean_five_files_one_missing:
  assumes files: "files = [f1, f2, f3, f4, f5]"
    and c1: "cleanable w f1"
    and c2: "cleanable (after_delete f1 w) f2"
    and m3: "missing (after_delete f2 (after_delete f1 w)) f3"
    and c4: "cleanable (after_delete f2 (after_delete f1 w)) f4"
    and c5: "cleanable (after_delete f4 (after_delete f2 (after_delete f1 w))) f5"
    and conf: "confirmed c" and nc: "\<not> cleaner_cancelled c"
    and idle: "state (state_manager w) = IDLE"
  shows "\<exists>c2 w2 c3 w3 r.
           start_clean files True cb (c, w) = (Inr True, c2, w2) \<and>
           run_clean_thread elapsed (c2, w2) = (None, c3, w3) \<and>
           result c3 = Some r \<and>
           files_deleted r = 4 \<and> skipped r = 1 \<and> errors r = [] \<and> success r \<and>
           total_size r = size_bytes f1 + size_bytes f2 + size_bytes f4 + size_bytes f5 \<and>
           state (state_manager w3) = IDLE \<and> complete_event c3"
proof -
  define sm1 where "sm1 = (state_manager w)\<lparr>state := CLEANING, cancel_flag := False\<rparr>"
  define c2 where "c2 = c\<lparr>complete_event := False, result := None, clean_thread := Some (files, cb)\<rparr>"
  define w2 where "w2 = w\<lparr>state_manager := sm1\<rparr>"
  have ne: "files \<noteq> []" by (simp add: files)
  have start: "start_clean files True cb (c, w) = (Inr True, c2, w2)"
    using ne conf idle
    by (simp add: start_clean_def is_idle_def transition_to_def Let_def c2_def w2_def sm1_def)
  define u0 where "u0 = publish (CLEAN_STARTED (length files)) w2"
  define n where "n = length files"
  let ?n = "n"
  let ?r0 = "new_CleanResult"
  have s0: "same_files u0 w" by (simp add: u0_def w2_def)
  have f0: "\<not> cancel_flag (state_manager u0)" by (simp add: u0_def w2_def sm1_def publish_def)
  have sm0: "state_manager u0 = sm1" by (simp add: u0_def w2_def publish_def)
  define r1 where "r1 = ?r0\<lparr>files_deleted := files_deleted ?r0 + 1, total_size := total_size ?r0 + size_bytes f1\<rparr>"
  from clean_loop_cleanable [OF _ f0 s0 c1, of False cb ?n 0 "[f2, f3, f4, f5]" ?r0]
  obtain u1 where e1: "clean_loop False cb ?n 0 [f1, f2, f3, f4, f5] (?r0, u0) =
                       clean_loop False cb ?n 1 [f2, f3, f4, f5] (r1, u1)"
    and s1: "same_files u1 (after_delete f1 w)" and sm1': "state_manager u1 = state_manager u0"
    unfolding r1_def by auto
  have f1: "\<not> cancel_flag (state_manager u1)" using f0 sm1' by simp
  define r2 where "r2 = r1\<lparr>files_deleted := files_deleted r1 + 1, total_size := total_size r1 + size_bytes f2\<rparr>"
  from clean_loop_cleanable [OF _ f1 s1 c2, of False cb ?n 1 "[f3, f4, f5]" r1]
  obtain u2 where e2: "clean_loop False cb ?n 1 [f2, f3, f4, f5] (r1, u1) =
                       clean_loop False cb ?n 2 [f3, f4, f5] (r2, u2)"
    and s2: "same_files u2 (after_delete f2 (after_delete f1 w))" and sm2: "state_manager u2 = state_manager u1"
    unfolding r2_def by (auto simp: numeral_2_eq_2)
  have f2: "\<not> cancel_flag (state_manager u2)" using f1 sm2 by simp
  define r3 where "r3 = r2\<lparr>skipped := skipped r2 + 1\<rparr>"
  from clean_loop_missing [OF _ f2 s2 m3, of False cb ?n 2 "[f4, f5]" r2]
  have e3: "clean_loop False cb ?n 2 [f3, f4, f5] (r2, u2) = clean_loop False cb ?n 3 [f4, f5] (r3, u2)"
    unfolding r3_def by (simp add: numeral_3_eq_3 numeral_2_eq_2)
  define r4 where "r4 = r3\<lparr>files_deleted := files_deleted r3 + 1, total_size := total_size r3 + size_bytes f4\<rparr>"
  from clean_loop_cleanable [OF _ f2 s2 c4, of False cb ?n 3 "[f5]" r3]
  obtain u4 where e4: "clean_loop False cb ?n 3 [f4, f5] (r3, u2) = clean_loop False cb ?n 4 [f5] (r4, u4)"
    and s4: "same_files u4 (after_delete f4 (after_delete f2 (after_delete f1 w)))"
    and sm4: "state_manager u4 = state_manager u2"
    unfolding r4_def by (auto simp: eval_nat_numeral)
  have f4: "\<not> cancel_flag (state_manager u4)" using f2 sm4 by simp
  define r5 where "r5 = r4\<lparr>files_deleted := files_deleted r4 + 1, total_size := total_size r4 + size_bytes f5\<rparr>"
  from clean_loop_cleanable [OF _ f4 s4 c5, of False cb ?n 4 "[]" r4]
  obtain u5 where e5: "clean_loop False cb ?n 4 [f5] (r4, u4) = clean_loop False cb ?n 5 [] (r5, u5)"
    and sm5: "state_manager u5 = state_manager u4"
    unfolding r5_def by (auto simp: eval_nat_numeral)
  have "clean_loop False cb (length files) 0 files (?r0, u0) =
        clean_loop False cb n 1 [f2, f3, f4, f5] (r1, u1)"
    unfolding n_def [symmetric] unfolding files by (rule e1)
  also have "\<dots> = clean_loop False cb n 2 [f3, f4, f5] (r2, u2)" by (rule e2)
  also have "\<dots> = clean_loop False cb n 3 [f4, f5] (r3, u2)" by (rule e3)
  also have "\<dots> = clean_loop False cb n 4 [f5] (r4, u4)" by (rule e4)
  also have "\<dots> = clean_loop False cb n 5 [] (r5, u5)" by (rule e5)
  also have "\<dots> = (r5, u5)" by simp
  finally have loop: "clean_loop False cb (length files) 0 files (?r0, u0) = (r5, u5)" .
  have counts: "files_deleted r5 = 4" "skipped r5 = 1" "errors r5 = []" "success r5"
    "total_size r5 = size_bytes f1 + size_bytes f2 + size_bytes f4 + size_bytes f5"
    by (simp_all add: r5_def r4_def r3_def r2_def r1_def new_CleanResult_def)
  have smu: "state_manager u5 = sm1" using sm5 sm4 sm2 sm1' sm0 by simp
  define r where "r = r5\<lparr>duration := elapsed\<rparr>"
  define w3'' where "w3'' = publish (CLEAN_COMPLETED (files_deleted r) (total_size r) (duration r)) u5"
  have cl: "clean False cb elapsed files w2 = (r, w3'')"
    using ne loop counts by (simp add: clean_def Let_def u0_def r_def w3''_def)
  have st: "state (state_manager w3'') = CLEANING"
    using smu by (simp add: w3''_def publish_def sm1_def)
  define c3 where "c3 = c2\<lparr>result := Some r, complete_event := True\<rparr>"
  define w3 where "w3 = w3''\<lparr>state_manager := (state_manager w3'')\<lparr>state := IDLE, cancel_flag := False\<rparr>\<rparr>"
  have run: "run_clean_thread elapsed (c2, w2) = (None, c3, w3)"
    using nc cl st
    by (simp add: run_clean_thread_def clean_worker_def c2_def transition_to_def Let_def c3_def w3_def)
  show ?thesis
    using start run counts
    by (intro exI [of _ c2] exI [of _ w2] exI [of _ c3] exI [of _ w3] exI [of _ r])
       (simp add: c3_def r_def w3_def)
qed


theorem clean_five_files_one_missing_witness:
  "cleanable temp_world (five_files ! 0) \<and>
   cleanable (after_delete (five_files ! 0) temp_world) (five_files ! 1) \<and>
   missing (after_delete (five_files ! 1) (after_delete (five_files ! 0) temp_world)) (five_files ! 2) \<and>
   cleanable (after_delete (five_files ! 1) (after_delete (five_files ! 0) temp_world)) (five_files ! 3) \<and>
   cleanable (after_delete (five_files ! 3) (after_delete (five_files ! 1)
       (after_delete (five_files ! 0) temp_world))) (five_files ! 4) \<and>
   (\<exists>c2 w2 c3 w3 r.
      start_clean five_files True False (new_CleanController\<lparr>confirmed := True\<rparr>, temp_world)
        = (Inr True, c2, w2) \<and>
      run_clean_thread 0 (c2, w2) = (None, c3, w3) \<and>
      result c3 = Some r \<and>
      files_deleted r = 4 \<and> skipped r = 1 \<and> errors r = [] \<and> success r \<and>
      total_size r = 1200 \<and> state (state_manager w3) = IDLE \<and> complete_event c3)"
proof -
  let ?f1 = "mk_FileInfo (Path ''D:/Temp/f1.tmp'') 100 False 0"
  let ?f2 = "mk_FileInfo (Path ''D:/Temp/f2.tmp'') 200 False 0"
  let ?f3 = "mk_FileInfo (Path ''D:/Temp/f3.tmp'') 300 False 0"
  let ?f4 = "mk_FileInfo (Path ''D:/Temp/f4.tmp'') 400 False 0"
  let ?f5 = "mk_FileInfo (Path ''D:/Temp/f5.tmp'') 500 False 0"
  have files: "five_files = [?f1, ?f2, ?f3, ?f4, ?f5]" by (simp add: five_files_def)
  have c1: "cleanable temp_world ?f1" by code_simp
  have c2: "cleanable (after_delete ?f1 temp_world) ?f2" by code_simp
  have m3: "missing (after_delete ?f2 (after_delete ?f1 temp_world)) ?f3" by code_simp
  have c4: "cleanable (after_delete ?f2 (after_delete ?f1 temp_world)) ?f4" by code_simp
  have c5: "cleanable (after_delete ?f4 (after_delete ?f2 (after_delete ?f1 temp_world))) ?f5"
    by code_simp
  have sz: "size_bytes ?f1 + size_bytes ?f2 + size_bytes ?f4 + size_bytes ?f5 = 1200"
    by (simp add: mk_FileInfo_def)
  have conf: "confirmed (new_CleanController\<lparr>confirmed := True\<rparr>)" by simp
  have nc: "\<not> cleaner_cancelled (new_CleanController\<lparr>confirmed := True\<rparr>)"
    by (simp add: new_CleanController_def)
  have idle: "state (state_manager temp_world) = IDLE" by (simp add: temp_world_def)
  from clean_five_files_one_missing [OF files c1 c2 m3 c4 c5 conf nc idle, of False 0]
  have "\<exists>c2 w2 c3 w3 r.
      start_clean five_files True False (new_CleanController\<lparr>confirmed := True\<rparr>, temp_world)
        = (Inr True, c2, w2) \<and>
      run_clean_thread 0 (c2, w2) = (None, c3, w3) \<and>
      result c3 = Some r \<and>
      files_deleted r = 4 \<and> skipped r = 1 \<and> errors r = [] \<and> success r \<and>
      total_size r = 1200 \<and> state (state_manager w3) = IDLE \<and> complete_event c3"
    unfolding sz .
  with m3 c1 c2 c4 c5 show ?thesis by (simp add: files)
qed

text \<open>
  Claim C7 as the specification words it (an \<open>errors\<close> list with exactly one entry, for the
  third file) fails on this scenario: the confirmed clean of the five files ends with an empty
  \<open>errors\<close> list and one skipped file.
\<close>

theorem clean_missing_file_no_error:
  "fst (start_clean five_files True False (snd (confirm_clean (new_CleanController, temp_world)))) = Inr True \<and>
   \<not> fs_exists temp_fs (path (five_files ! 2)) \<and>
   result (fst (snd (run_clean_thread 0
             (snd (start_clean five_files True False (snd (confirm_clean (new_CleanController, temp_world))))))))
      = Some \<lparr>success = True, files_deleted = 4, total_size = 1200, errors = [], duration = 0, skipped = 1\<rparr> \<and>
   length (errors (the (result (fst (snd (run_clean_thread 0
             (snd (start_clean five_files True False (snd (confirm_clean (new_CleanController, temp_world)))))))))))
      \<noteq> 1"
  by code_simp

section \<open>Theorems about size formatting\<close>

lemma format_loop_spec:
  "\<exists>k. k \<le> length us \<and>
       format_loop us v =
         (fmt2 (v / 1024 ^ k) @ (if k < length us then '' '' @ us ! k else '' PB''), v / 1024 ^ k) \<and>
       (k < length us \<longrightarrow> v / 1024 ^ k < 1024) \<and>
       (\<forall>j < k. 1024 \<le> v / 1024 ^ j)"
proof (induction us arbitrary: v)
  case Nil
  show ?case by simp
next
  case (Cons u us)
  show ?case
  proof (cases "v < 1024")
    case True
    then show ?thesis by (intro exI [of _ 0]) simp
  next
    case False
    from Cons.IH [of "v / 1024"] obtain k where k: "k \<le> length us"
      "format_loop us (v / 1024) =
         (fmt2 (v / 1024 / 1024 ^ k) @ (if k < length us then '' '' @ us ! k else '' PB''), v / 1024 / 1024 ^ k)"
      "k < length us \<longrightarrow> v / 1024 / 1024 ^ k < 1024"
      "\<forall>j < k. 1024 \<le> v / 1024 / 1024 ^ j"
      by blast
    have pw: "v / 1024 / 1024 ^ j = v / 1024 ^ Suc j" for j by simp
    have all: "\<forall>j < Suc k. 1024 \<le> v / 1024 ^ j"
    proof (intro allI impI)
      fix j assume "j < Suc k"
      show "1024 \<le> v / 1024 ^ j"
      proof (cases j)
        case 0
        with False show ?thesis by simp
      next
        case (Suc j')
        with \<open>j < Suc k\<close> k(4) have "1024 \<le> v / 1024 / 1024 ^ j'" by simp
        then show ?thesis unfolding Suc pw .
      qed
    qed
    show ?thesis
      using False k(1,2,3) all unfolding pw
      by (intro exI [of _ "Suc k"]) simp
  qed
qed


lemma format_loop_large:
  assumes lo: "1024 \<le> v"
  shows "\<exists>k. 1 \<le> k \<and> k \<le> 5 \<and> snd (format_loop UNITS v) = v / 1024 ^ k \<and>
             snd (format_loop UNITS v) < v \<and>
             (v < 1024 ^ 6 \<longrightarrow>
                fst (format_loop UNITS (snd (format_loop UNITS v))) \<noteq> fst (format_loop UNITS v))"
proof -
  from format_loop_spec [of UNITS v] obtain k where k: "k \<le> length UNITS"
    "format_loop UNITS v =
       (fmt2 (v / 1024 ^ k) @ (if k < length UNITS then '' '' @ UNITS ! k else '' PB''), v / 1024 ^ k)"
    "k < length UNITS \<longrightarrow> v / 1024 ^ k < 1024"
    "\<forall>j < k. 1024 \<le> v / 1024 ^ j"
    by blast
  have len: "length UNITS = 5" by (simp add: UNITS_def)
  have k1: "1 \<le> k"
  proof (rule ccontr)
    assume "\<not> 1 \<le> k"
    then have "k = 0" by simp
    with k(3) len lo show False by simp
  qed
  have vpos: "0 < v" using lo by simp
  have "(1024::rat) ^ 1 \<le> 1024 ^ k" using k1 by (intro power_increasing) simp_all
  then have big: "(1024::rat) \<le> 1024 ^ k" by simp
  have lt: "v / 1024 ^ k < v"
  proof -
    have "v / 1024 ^ k \<le> v / 1024" using big vpos by (intro divide_left_mono) simp_all
    also have "\<dots> < v" using vpos by simp
    finally show ?thesis .
  qed
  have differ: "fst (format_loop UNITS (snd (format_loop UNITS v))) \<noteq> fst (format_loop UNITS v)"
    if up: "v < 1024 ^ 6"
  proof -
    have small: "v / 1024 ^ k < 1024"
    proof (cases "k < 5")
      case True
      with k(3) len show ?thesis by simp
    next
      case False
      with k(1) len have "k = 5" by simp
      with up show ?thesis by simp
    qed
    have second: "format_loop UNITS (v / 1024 ^ k) = (fmt2 (v / 1024 ^ k) @ '' B'', v / 1024 ^ k)"
      using small by (simp add: UNITS_def)
    have unit_ne: "(if k < length UNITS then '' '' @ UNITS ! k else '' PB'') \<noteq> '' B''"
    proof -
      from k1 k(1) len have "k = 1 \<or> k = 2 \<or> k = 3 \<or> k = 4 \<or> k = 5" by auto
      then show ?thesis by (auto simp: UNITS_def)
    qed
    show ?thesis
      using unit_ne by (simp add: k(2) second)
  qed
  show ?thesis
    using k1 k(1) len lt differ by (intro exI [of _ k]) (simp add: k(2))
qed

text \<open>
  Claim C10. Reading \<^verbatim>\<open>formatted_size\<close> of a \<^verbatim>\<open>CleanResult\<close> whose \<open>total_size\<close> is
  \<open>v \<ge> 1024\<close> leaves \<open>v / 1024 ^ k\<close> in the field, for some \<open>k\<close> from 1 to 5: the field no
  longer holds the byte count. A second read then starts from the divided value, and for every
  \<open>v\<close> below \<open>1024 ^ 6\<close> it returns another string than the first. \<^verbatim>\<open>FileInfo.format_size\<close>
  does the same to its \<open>size\<close> field. (Sizes are exact rationals here, as the doubles are
  for byte counts below \<open>2 ^ 53\<close>.)
\<close>

theorem formatted_size_mutates:
  assumes "1024 \<le> v"
  shows "(total_size r = v \<longrightarrow>
            total_size (snd (formatted_size r)) \<noteq> total_size r \<and>
            (\<exists>k. 1 \<le> k \<and> k \<le> 5 \<and> total_size (snd (formatted_size r)) = v / 1024 ^ k) \<and>
            (v < 1024 ^ 6 \<longrightarrow>
               fst (formatted_size (snd (formatted_size r))) \<noteq> fst (formatted_size r))) \<and>
         (size_bytes f = v \<longrightarrow>
            size_bytes (snd (format_size f)) \<noteq> size_bytes f \<and>
            (\<exists>k. 1 \<le> k \<and> k \<le> 5 \<and> size_bytes (snd (format_size f)) = v / 1024 ^ k) \<and>
            (v < 1024 ^ 6 \<longrightarrow>
               fst (format_size (snd (format_size f))) \<noteq> fst (format_size f)))"
proof -
  from format_loop_large [OF assms] obtain k where k: "1 \<le> k" "k \<le> 5"
    "snd (format_loop UNITS v) = v / 1024 ^ k" "snd (format_loop UNITS v) < v"
    "v < 1024 ^ 6 \<longrightarrow>
       fst (format_loop UNITS (snd (format_loop UNITS v))) \<noteq> fst (format_loop UNITS v)"
    by blast
  have fs: "formatted_size x = (fst (format_loop UNITS (total_size x)),
                               x\<lparr>total_size := snd (format_loop UNITS (total_size x))\<rparr>)" for x
    by (simp add: formatted_size_def split: prod.splits)
  have fz: "format_size x = (fst (format_loop UNITS (size_bytes x)),
                            x\<lparr>size_bytes := snd (format_loop UNITS (size_bytes x))\<rparr>)" for x
    by (simp add: format_size_def split: prod.splits)
  show ?thesis
    using k by (auto simp: fs fz)
qed

theorem formatted_size_mutates_witness:
  "formatted_size (new_CleanResult\<lparr>total_size := 1048576\<rparr>) =
     (''1.00 MB'', new_CleanResult\<lparr>total_size := 1\<rparr>) \<and>
   formatted_size (new_CleanResult\<lparr>total_size := 1\<rparr>) =
     (''1.00 B'', new_CleanResult\<lparr>total_size := 1\<rparr>) \<and>
   total_size (snd (formatted_size (new_CleanResult\<lparr>total_size := 1048576\<rparr>))) \<noteq> 1048576 \<and>
   fst (formatted_size (snd (formatted_size (new_CleanResult\<lparr>total_size := 1048576\<rparr>)))) \<noteq>
     fst (formatted_size (new_CleanResult\<lparr>total_size := 1048576\<rparr>)) \<and>
   format_size (mk_FileInfo (Path ''test.txt'') 1536 False 0) =
     (''1.50 KB'', (mk_FileInfo (Path ''test.txt'') 1536 False 0)\<lparr>size_bytes := 3 / 2\<rparr>) \<and>
   size_bytes (snd (format_size (mk_FileInfo (Path ''test.txt'') 1536 False 0))) \<noteq> 1536 \<and>
   fst (format_size (snd (format_size (mk_FileInfo (Path ''test.txt'') 1536 False 0)))) \<noteq>
     fst (format_size (mk_FileInfo (Path ''test.txt'') 1536 False 0))"
proof -
  let ?r = "new_CleanResult\<lparr>total_size := 1048576\<rparr>"
  let ?f = "mk_FileInfo (Path ''test.txt'') 1536 False 0"
  have a: "formatted_size ?r = (''1.00 MB'', new_CleanResult\<lparr>total_size := 1\<rparr>)" by code_simp
  have b: "formatted_size (new_CleanResult\<lparr>total_size := 1\<rparr>) =
     (''1.00 B'', new_CleanResult\<lparr>total_size := 1\<rparr>)" by code_simp
  have c: "format_size ?f = (''1.50 KB'', ?f\<lparr>size_bytes := 3 / 2\<rparr>)" by code_simp
  have tr: "total_size ?r = 1048576" by simp
  have tf: "size_bytes ?f = 1536" by (simp add: mk_FileInfo_def)
  have v1: "(1024::rat) \<le> 1048576" "(1048576::rat) < 1024 ^ 6" by simp_all
  have v2: "(1024::rat) \<le> 1536" "(1536::rat) < 1024 ^ 6" by simp_all
  from formatted_size_mutates [OF v1(1), of ?r ?f] tr v1(2)
  have r: "total_size (snd (formatted_size ?r)) \<noteq> 1048576"
    "fst (formatted_size (snd (formatted_size ?r))) \<noteq> fst (formatted_size ?r)"
    by simp_all
  from formatted_size_mutates [OF v2(1), of ?r ?f] tf v2(2)
  have f: "size_bytes (snd (format_size ?f)) \<noteq> 1536"
    "fst (format_size (snd (format_size ?f))) \<noteq> fst (format_size ?f)"
    by simp_all
  from a b c r f show ?thesis by blast
qed

section \<open>Further properties\<close>

subsection \<open>When the optimized engine agrees with the baseline\<close>

lemma getk_ext_add: "getk (ext_add r e m) k = getk m k @ (if lower e = k then [r] else [])"
  by (simp add: getk_def ext_add_def Let_def)

lemma getk_fold_ext_add:
  "getk (fold (ext_add r) es m) k = getk m k @ map (\<lambda>e. r) (filter (\<lambda>e. lower e = k) es)"
  by (induction es arbitrary: m) (simp_all add: getk_ext_add)

lemma getk_add_rule:
  "getk (rules_by_extension (add_rule r ix)) k =
   getk (rules_by_extension ix) k @ by_ext k [r]"
  by (simp add: add_rule_def getk_fold_ext_add by_ext_def)

lemma by_ext_Cons: "by_ext k (r # rs) = by_ext k [r] @ by_ext k rs"
  by (simp add: by_ext_def)

lemma fold_oi_index_rule:
  "getk (rules_by_extension (extension_index (fold oi_index_rule rs idx))) k =
     getk (rules_by_extension (extension_index idx)) k @ by_ext k rs \<and>
   oi_enabled_rules (fold oi_index_rule rs idx) = oi_enabled_rules idx @ filter enabled rs"
proof (induction rs arbitrary: idx)
  case Nil
  show ?case by (simp add: by_ext_def)
next
  case (Cons r rs)
  show ?case
    using Cons.IH [of "oi_index_rule r idx"]
    by (simp add: by_ext_Cons [of k r rs] oi_index_rule_def getk_add_rule)
qed

lemma get_rules_mk:
  "get_rules (extension_index (mk_OptimizedRuleIndex rs)) ext = by_ext (lower ext) rs"
  using fold_oi_index_rule [of rs _ "lower ext"]
  by (simp add: get_rules_def mk_OptimizedRuleIndex_def Let_def getk_def)

lemma oi_enabled_mk: "oi_enabled_rules (mk_OptimizedRuleIndex rs) = filter enabled rs"
  using fold_oi_index_rule [of rs]
  by (simp add: mk_OptimizedRuleIndex_def)

lemma opt_conditions_matches_eq:
  "path_pattern_ok re r \<Longrightarrow>
   opt_conditions_matches re (conditions r) f = conditions_matches re (conditions r) f"
  by (auto simp: opt_conditions_matches_def conditions_matches_def match_path_pattern_def
      path_pattern_ok_def Let_def)

lemma opt_rule_matches_eq:
  "path_pattern_ok re r \<Longrightarrow> opt_rule_matches re r f = rule_matches re r f"
  by (simp add: opt_rule_matches_def rule_matches_def opt_conditions_matches_eq)

lemma opt_first_match_replicate:
  "\<not> rule_matches re r f \<Longrightarrow> path_pattern_ok re r \<Longrightarrow>
   opt_first_match re (map (\<lambda>e. r) es @ xs) f = opt_first_match re xs f"
  by (induction es) (auto simp: opt_rule_matches_eq rule_matches_def)

lemma opt_first_match_enabled:
  "list_all (path_pattern_ok re) rs \<Longrightarrow>
   opt_first_match re (filter enabled rs) f = first_match re rs f"
  by (induction rs) (auto simp: opt_rule_matches_eq rule_matches_def)

lemma not_listed_no_match:
  "file_extensions (conditions r) \<noteq> [] \<Longrightarrow>
   filter (\<lambda>e. lower e = lower (file_extension f)) (file_extensions (conditions r)) = [] \<Longrightarrow>
   \<not> rule_matches re r f"
  by (auto simp: rule_matches_def conditions_matches_def filter_empty_conv)

lemma opt_first_match_by_ext:
  assumes "list_all (path_pattern_ok re) rs"
    and "\<forall>r \<in> set rs. file_extensions (conditions r) = [] \<longrightarrow> \<not> rule_matches re r f"
  shows "opt_first_match re (by_ext (lower (file_extension f)) rs) f = first_match re rs f"
  using assms
proof (induction rs)
  case Nil
  show ?case by (simp add: by_ext_def)
next
  case (Cons r rs)
  let ?k = "lower (file_extension f)"
  let ?es = "filter (\<lambda>e. lower e = ?k) (file_extensions (conditions r))"
  have ok: "path_pattern_ok re r" using Cons.prems(1) by simp
  have IH: "opt_first_match re (by_ext ?k rs) f = first_match re rs f"
    using Cons.prems by (intro Cons.IH) auto
  have be: "by_ext ?k (r # rs) = map (\<lambda>e. r) ?es @ by_ext ?k rs"
    by (simp add: by_ext_def)
  show ?case
  proof (cases "rule_matches re r f")
    case True
    then have en: "enabled r" and cm: "conditions_matches re (conditions r) f"
      by (auto simp: rule_matches_def split: if_splits)
    from True Cons.prems(2) have ne: "file_extensions (conditions r) \<noteq> []" by auto
    with True have "?es \<noteq> []"
      using not_listed_no_match [of r f re] by blast
    then obtain e es' where es: "?es = e # es'" by (cases ?es) auto
    show ?thesis
      unfolding be es using True en ok by (simp add: opt_rule_matches_eq)
  next
    case False
    then show ?thesis
      unfolding be using ok IH by (simp add: opt_first_match_replicate)
  qed
qed


lemma load_rules_eq:
  "cfg \<noteq> InvalidJSON \<Longrightarrow>
   load_rules re cfg eng =
     Inr (eng\<lparr>rules := loaded_rules re cfg,
              rule_index := Some (PlainIndex (mk_RuleIndex (loaded_rules re cfg)))\<rparr>)"
  by (cases cfg) (simp_all add: load_rules_def loaded_rules_def Let_def)

text \<open>
  The optimized engine returns what the baseline returns when the load succeeds with a rule
  list that is not empty, every path pattern compiles, and no rule without extensions matches
  the file (in particular when every rule lists at least one extension). The rules without
  extensions are exactly what the extension index loses.
\<close>

theorem optimized_agrees_when_indexed:
  assumes cfg: "cfg \<noteq> InvalidJSON"
    and ne: "loaded_rules re cfg \<noteq> []"
    and pats: "list_all (path_pattern_ok re) (loaded_rules re cfg)"
    and exts: "\<forall>r \<in> set (loaded_rules re cfg).
                 file_extensions (conditions r) = [] \<longrightarrow> \<not> rule_matches re r f"
  shows "fst (opt_load_rules re cfg new_OptimizedRuleEngine) = Inr () \<and>
         fst (opt_match_file re cfg' (snd (opt_load_rules re cfg new_OptimizedRuleEngine)) f) =
         fst (match_file re cfg' (projr (load_rules re cfg new_RuleEngine)) f)"
proof -
  let ?rs = "loaded_rules re cfg"
  define eo where "eo = new_OptimizedRuleEngine\<lparr>rules := ?rs,
      rule_index := Some (OptIndex (mk_OptimizedRuleIndex ?rs))\<rparr>"
  have lo: "opt_load_rules re cfg new_OptimizedRuleEngine = (Inr (), eo)"
    using ne pats by (simp add: opt_load_rules_def load_rules_eq [OF cfg] eo_def)
  have lb: "load_rules re cfg new_RuleEngine = Inr (projr (load_rules re cfg new_RuleEngine))"
    by (simp add: load_rules_eq [OF cfg])
  have rb: "rules (projr (load_rules re cfg new_RuleEngine)) = ?rs"
    by (simp add: load_rules_eq [OF cfg])
  have base: "fst (match_file re cfg' (projr (load_rules re cfg new_RuleEngine)) f) =
      Inr (match_result (first_match re ?rs f) f)"
    by (simp add: match_file_loaded [OF lb] rb)
  have cand: "opt_first_match re
        (if by_ext (lower (file_extension f)) ?rs = [] then filter enabled ?rs
         else by_ext (lower (file_extension f)) ?rs) f = first_match re ?rs f"
  proof (cases "by_ext (lower (file_extension f)) ?rs = []")
    case True
    then show ?thesis by (simp add: opt_first_match_enabled [OF pats])
  next
    case False
    then show ?thesis by (simp add: opt_first_match_by_ext [OF pats exts])
  qed
  have opt: "fst (opt_match_file re cfg' eo f) = Inr (match_result (first_match re ?rs f) f)"
    using cand
    by (auto simp: opt_match_file_def eo_def new_OptimizedRuleEngine_def get_rules_mk oi_enabled_mk
        Let_def split: if_splits)
  show ?thesis by (simp add: lo base opt)
qed

theorem optimized_agrees_when_indexed_witness:
  "fst (opt_load_rules demo_re NoConfigFile new_OptimizedRuleEngine) = Inr () \<and>
   fst (opt_match_file demo_re NoConfigFile
          (snd (opt_load_rules demo_re NoConfigFile new_OptimizedRuleEngine)) a_tmp) =
   fst (match_file demo_re NoConfigFile (projr (load_rules demo_re NoConfigFile new_RuleEngine)) a_tmp) \<and>
   map_option rule_id (rule (projr (fst (match_file demo_re NoConfigFile
          (projr (load_rules demo_re NoConfigFile new_RuleEngine)) a_tmp)))) = Some ''temp_files''"
proof -
  have cfg: "NoConfigFile \<noteq> InvalidJSON" by simp
  have lr: "loaded_rules demo_re NoConfigFile = default_rules" by (simp add: loaded_rules_def)
  have ne: "loaded_rules demo_re NoConfigFile \<noteq> []" by (simp add: lr default_rules_def)
  have pats: "list_all (path_pattern_ok demo_re) (loaded_rules demo_re NoConfigFile)"
    by (simp add: lr default_rules_def path_pattern_ok_def)
  have exts: "\<forall>r \<in> set (loaded_rules demo_re NoConfigFile).
                 file_extensions (conditions r) = [] \<longrightarrow> \<not> rule_matches demo_re r a_tmp"
    by (simp add: lr default_rules_def)
  have ev: "map_option rule_id (rule (projr (fst (match_file demo_re NoConfigFile
          (projr (load_rules demo_re NoConfigFile new_RuleEngine)) a_tmp)))) = Some ''temp_files''"
    by code_simp
  from optimized_agrees_when_indexed [OF cfg ne pats exts, of NoConfigFile] ev
  show ?thesis by blast
qed

subsection \<open>What check 1 rejects\<close>

text \<open>
  Check 1 rejects every existing path whose real path, once resolved, has the parts of a
  resolved entry of the protected list as its leading parts, string by string, whatever the
  whitelist. The entry is read as \<^verbatim>\<open>Path(entry).resolve()\<close>.
\<close>

theorem resolved_prefix_rejected:
  assumes ex: "fs_exists fs p"
    and rp: "fs_realpath fs p = Inr rp"
    and r: "r \<in> set protected"
    and x: "fs_resolve fs rp = Inr x"
    and y: "fs_resolve fs (Path r) = Inr y"
    and pre: "prefix (parts y) (parts x)"
  shows "rejected_as_protected fs protected p wl"
proof -
  from x y pre have "is_path_under fs rp (Path r)" by (simp add: is_path_under_prefix)
  with ex rp r show ?thesis by (rule rejected_if_under)
qed

theorem resolved_prefix_rejected_witness:
  "fs_exists demo_fs (Path ''C:/Windows/System32/kernel32.dll'') \<and>
   prefix (parts (Path ''C:/Windows'')) (parts (Path ''C:/Windows/System32/kernel32.dll'')) \<and>
   rejected_as_protected demo_fs HARDCODED_PROTECTED (Path ''C:/Windows/System32/kernel32.dll'') [] \<and>
   is_safe_to_delete demo_fs HARDCODED_PROTECTED (Path ''C:/Windows/System32/kernel32.dll'') []
     = (False, ''Protected path: C:'' @ BS @ ''Windows'')"
proof -
  let ?p = "Path ''C:/Windows/System32/kernel32.dll''"
  let ?r = "''C:'' @ BS @ ''Windows''"
  have ex: "fs_exists demo_fs ?p" by code_simp
  have rp: "fs_realpath demo_fs ?p = Inr ?p" by code_simp
  have r: "?r \<in> set HARDCODED_PROTECTED" by (simp add: HARDCODED_PROTECTED_def)
  have x: "fs_resolve demo_fs ?p = Inr ?p" by code_simp
  have y: "fs_resolve demo_fs (Path ?r) = Inr (Path ''C:/Windows'')" by code_simp
  have pre: "prefix (parts (Path ''C:/Windows'')) (parts ?p)" by code_simp
  have c: "is_safe_to_delete demo_fs HARDCODED_PROTECTED ?p [] = (False, ''Protected path: C:'' @ BS @ ''Windows'')"
    by code_simp
  from resolved_prefix_rejected [OF ex rp r x y pre, of "[]"] ex pre c
  show ?thesis by blast
qed

text \<open>
  What a file system that resolves without regard to letter case adds: there the rejection is
  the same for every spelling of the path in another letter case and for an entry of the list
  spelled in another case or with a trailing separator (\<open>Path_trailing_sep\<close>, \<open>Path_respelled\<close>),
  provided the entry exists. The comparison itself folds no case.
\<close>

theorem respelled_path_and_root_rejected:
  assumes ci: "case_insensitive_fs fs"
    and ex: "fs_exists fs p"
    and rp: "fs_realpath fs p = Inr rp"
    and exr: "fs_exists fs (Path r)"
    and x: "fs_resolve fs rp = Inr x"
    and y: "fs_resolve fs (Path r) = Inr y"
    and pre: "prefix (parts y) (parts x)"
    and pp: "ci_eq p p'"
    and r': "r' \<in> set protected'"
    and rr: "ci_eq (Path r) (Path r')"
  shows "rejected_as_protected fs protected' p' wl'"
proof -
  from ci ex pp have ex': "fs_exists fs p'" and rp': "fs_realpath fs p' = Inr rp"
    using rp unfolding case_insensitive_fs_def by metis+
  from ci exr rr have "fs_resolve fs (Path r') = fs_resolve fs (Path r)"
    unfolding case_insensitive_fs_def by metis
  with y have y': "fs_resolve fs (Path r') = Inr y" by simp
  from x y' pre have "is_path_under fs rp (Path r')" by (simp add: is_path_under_prefix)
  with ex' rp' r' show ?thesis by (rule rejected_if_under)
qed

theorem respelled_path_and_root_rejected_witness:
  "case_insensitive_fs demo_fs \<and>
   ci_eq (Path ''C:/Windows/System32/kernel32.dll'') (Path ''c:/windows/SYSTEM32/kernel32.dll'') \<and>
   ci_eq (Path (''C:'' @ BS @ ''Windows'')) (Path ''c:/WINDOWS/'') \<and>
   rejected_as_protected demo_fs [''c:/WINDOWS/''] (Path ''c:/windows/SYSTEM32/kernel32.dll'') [] \<and>
   is_safe_to_delete demo_fs [''c:/WINDOWS/''] (Path ''c:/windows/SYSTEM32/kernel32.dll'') []
     = (False, ''Protected path: c:/WINDOWS/'')"
proof -
  let ?p = "Path ''C:/Windows/System32/kernel32.dll''"
  let ?p' = "Path ''c:/windows/SYSTEM32/kernel32.dll''"
  let ?r = "''C:'' @ BS @ ''Windows''"
  let ?r' = "''c:/WINDOWS/''"
  have ci: "case_insensitive_fs demo_fs" unfolding demo_fs_def by (rule ntfs_case_insensitive)
  have ex: "fs_exists demo_fs ?p" by code_simp
  have rp: "fs_realpath demo_fs ?p = Inr ?p" by code_simp
  have exr: "fs_exists demo_fs (Path ?r)" by code_simp
  have x: "fs_resolve demo_fs ?p = Inr ?p" by code_simp
  have y: "fs_resolve demo_fs (Path ?r) = Inr (Path ''C:/Windows'')" by code_simp
  have pre: "prefix (parts (Path ''C:/Windows'')) (parts ?p)" by code_simp
  have pp: "ci_eq ?p ?p'" by code_simp
  have r': "?r' \<in> set [?r']" by simp
  have rr: "ci_eq (Path ?r) (Path ?r')" by code_simp
  have d: "is_safe_to_delete demo_fs [?r'] ?p' [] = (False, ''Protected path: c:/WINDOWS/'')"
    by code_simp
  from respelled_path_and_root_rejected [OF ci ex rp exr x y pre pp r' rr, of "[]"] ci pp rr d
  show ?thesis by blast
qed

text \<open>
  Eight entries of the protected list are absolute paths on drive C. The ninth,
  \<^verbatim>\<open>C:$Recycle.Bin\<close>, has no separator after the drive: it is a path relative to the current
  directory of drive C, with other parts than the recycle bin at the root of the drive.
\<close>

theorem recycle_bin_entry_is_drive_relative:
  "map (\<lambda>s. anchor (Path s)) HARDCODED_PROTECTED =
     [''C:'' @ BS, ''C:'' @ BS, ''C:'' @ BS, ''C:'' @ BS, ''C:'' @ BS, ''C:'' @ BS, ''C:'' @ BS,
      ''C:'' @ BS, ''C:''] \<and>
   parts (Path ''C:$Recycle.Bin'') = [''C:'', ''$Recycle.Bin''] \<and>
   parts (Path (''C:'' @ BS @ ''$Recycle.Bin'')) = [''C:'' @ BS, ''$Recycle.Bin'']"
  by code_simp

subsection \<open>Two names of one file in a list\<close>

text \<open>
  The safety check runs again for every file at its turn. In the temp directory above, with
  the second file of the list replaced by another spelling of the first, all four named files
  pass the safety check before the run, and the run deletes three files and skips two: the
  second name is gone once the first is deleted.
\<close>

theorem clean_second_name_skipped:
  "cleanable temp_world (five_names ! 0) \<and> cleanable temp_world (five_names ! 1) \<and>
   missing temp_world (five_names ! 2) \<and>
   cleanable temp_world (five_names ! 3) \<and> cleanable temp_world (five_names ! 4) \<and>
   missing (after_delete (five_names ! 0) temp_world) (five_names ! 1) \<and>
   result (fst (snd (run_clean_thread 0
             (snd (start_clean five_names True False (snd (confirm_clean (new_CleanController, temp_world))))))))
      = Some \<lparr>success = True, files_deleted = 3, total_size = 1000, errors = [], duration = 0, skipped = 2\<rparr>"
  by code_simp

subsection \<open>Preview and cancellation\<close>

text \<open>
  \<^verbatim>\<open>preview_clean\<close> leaves the world (file system, state manager, events) as it was, and a
  second preview of the same files returns the same information and the same state.
\<close>

theorem preview_clean_no_side_effect:
  "snd (snd (preview_clean files (c, w))) = w \<and>
   fst (preview_clean files (snd (preview_clean files (c, w)))) = fst (preview_clean files (c, w)) \<and>
   snd (preview_clean files (snd (preview_clean files (c, w)))) = snd (preview_clean files (c, w))"
proof -
  obtain a b d where cl: "classify w files (0, 0, 0) = (a, b, d)"
    by (cases "classify w files (0, 0, 0)") auto
  have f: "fst (preview_clean files (c\<lparr>preview_files := files, confirmed := False\<rparr>, w)) =
           fst (preview_clean files (c, w))"
    by (simp add: preview_clean_def Let_def cl)
  show ?thesis
    unfolding snd_preview_clean using f by simp
qed

text \<open>
  A clean that finds a cancellation requested (the executor's flag or the state manager's)
  stops before the first file: nothing is deleted, the result is a failure with the single
  error \<^verbatim>\<open>Cancelled by user\<close>, and the started and failed events are published.
\<close>

theorem clean_cancelled_deletes_nothing:
  "files \<noteq> [] \<and> (cancelled \<or> cancel_flag (state_manager w)) \<longrightarrow>
     fst (clean cancelled cb elapsed files w) =
       new_CleanResult\<lparr>success := False, errors := [''Cancelled by user''], duration := elapsed\<rparr> \<and>
     file_system (snd (clean cancelled cb elapsed files w)) = file_system w \<and>
     events (snd (clean cancelled cb elapsed files w)) =
       events w @ [CLEAN_STARTED (length files), CLEAN_FAILED 0 1 [''Cancelled by user'']]"
  by (cases files) (auto simp: clean_def is_cancel_requested_def publish_def new_CleanResult_def Let_def)

theorem clean_cancelled_deletes_nothing_witness:
  "five_files \<noteq> [] \<and>
   fst (clean True False 0 five_files temp_world) =
     new_CleanResult\<lparr>success := False, errors := [''Cancelled by user''], duration := 0\<rparr> \<and>
   file_system (snd (clean True False 0 five_files temp_world)) = file_system temp_world \<and>
   events (snd (clean True False 0 five_files temp_world)) =
     events temp_world @ [CLEAN_STARTED (length five_files), CLEAN_FAILED 0 1 [''Cancelled by user'']]"
proof -
  have ne: "five_files \<noteq> []" by (simp add: five_files_def)
  with clean_cancelled_deletes_nothing [of five_files True temp_world False 0]
  show ?thesis by simp
qed

end
